theory Spec2Isabelle
  imports Complex_Main "HOL-Library.Word" "HOL-Library.Log_Nat"
begin

unbundle bit_operations_syntax

section \<open>JavaScript numbers\<close>

text \<open>
  A JavaScript \<^verbatim>\<open>number\<close> is an IEEE-754 binary64 value. A finite one is modelled by
  the rational it denotes, and every arithmetic operation rounds its exact result to the
  nearest value with a 53-bit significand, ties to even (\<open>fl\<close>). \<open>NaN\<close> is a value of
  its own. The exponent range is not bounded in the model: no operation of the engine
  overflows or underflows for inputs that are doubles of ordinary size, and the
  infinities and the negative zero are left out.
\<close>

datatype number = Num rat | NaN

definition rne :: "rat \<Rightarrow> int" where
  \<comment> \<open>nearest integer, ties to the even one\<close>
  "rne r = (let f = \<lfloor>r\<rfloor>; d = r - of_int f in
     if d < 1 / 2 then f else if 1 / 2 < d then f + 1 else if even f then f else f + 1)"

definition ilog2 :: "rat \<Rightarrow> int" where
  \<comment> \<open>for \<open>x > 0\<close>, the exponent \<open>e\<close> with \<open>2^e \<le> x < 2^(e+1)\<close>\<close>
  "ilog2 x = (if 1 \<le> x then bitlen \<lfloor>x\<rfloor> - 1 else - bitlen (\<lceil>1 / x\<rceil> - 1))"

definition fl :: "rat \<Rightarrow> rat" where
  \<comment> \<open>round to nearest binary64 value: 53 significant bits, ties to even\<close>
  "fl x = (if x = 0 then 0 else
     sgn x * of_int (rne (\<bar>x\<bar> * 2 powi (52 - ilog2 \<bar>x\<bar>))) * 2 powi (ilog2 \<bar>x\<bar> - 52))"

definition lit :: "rat \<Rightarrow> number" where
  \<comment> \<open>the number a decimal literal of the source denotes\<close>
  "lit q = Num (fl q)"

definition num_of_int :: "int \<Rightarrow> number" where
  \<comment> \<open>the number holding an integer value\<close>
  "num_of_int n = Num (fl (of_int n))"

definition num_of_nat :: "nat \<Rightarrow> number" where
  "num_of_nat n = num_of_int (int n)"

fun fadd :: "number \<Rightarrow> number \<Rightarrow> number" where
  "fadd (Num x) (Num y) = Num (fl (x + y))"
| "fadd _ _ = NaN"

fun fsub :: "number \<Rightarrow> number \<Rightarrow> number" where
  "fsub (Num x) (Num y) = Num (fl (x - y))"
| "fsub _ _ = NaN"

fun fmul :: "number \<Rightarrow> number \<Rightarrow> number" where
  "fmul (Num x) (Num y) = Num (fl (x * y))"
| "fmul _ _ = NaN"

fun fdiv :: "number \<Rightarrow> number \<Rightarrow> number" where
  \<comment> \<open>the engine divides by non-zero literals only; \<open>x / 0\<close> (an infinity in
      JavaScript) is outside the model and mapped to \<open>NaN\<close>\<close>
  "fdiv (Num x) (Num y) = (if y = 0 then NaN else Num (fl (x / y)))"
| "fdiv _ _ = NaN"

fun lt :: "number \<Rightarrow> number \<Rightarrow> bool" where
  \<comment> \<open>\<^verbatim>\<open>a < b\<close>: false as soon as one side is \<open>NaN\<close>\<close>
  "lt (Num x) (Num y) = (x < y)"
| "lt _ _ = False"

fun Math_min :: "number \<Rightarrow> number \<Rightarrow> number" where
  "Math_min (Num x) (Num y) = Num (min x y)"
| "Math_min _ _ = NaN"

fun Math_max :: "number \<Rightarrow> number \<Rightarrow> number" where
  "Math_max (Num x) (Num y) = Num (max x y)"
| "Math_max _ _ = NaN"

fun Math_abs :: "number \<Rightarrow> number" where
  "Math_abs (Num x) = Num \<bar>x\<bar>"
| "Math_abs NaN = NaN"

fun Math_floor :: "number \<Rightarrow> number" where
  "Math_floor (Num x) = Num (of_int \<lfloor>x\<rfloor>)"
| "Math_floor NaN = NaN"

fun Math_round :: "number \<Rightarrow> number" where
  \<comment> \<open>\<^verbatim>\<open>Math.round\<close>: the nearest integer, a tie going up\<close>
  "Math_round (Num x) = Num (of_int \<lfloor>x + 1 / 2\<rfloor>)"
| "Math_round NaN = NaN"

fun ToNumber :: "number option \<Rightarrow> number" where
  \<comment> \<open>\<open>None\<close> is \<^verbatim>\<open>undefined\<close>, which arithmetic turns into \<open>NaN\<close>\<close>
  "ToNumber None = NaN"
| "ToNumber (Some x) = x"

definition index :: "'a list \<Rightarrow> nat \<Rightarrow> 'a option" where
  \<comment> \<open>\<^verbatim>\<open>xs[i]\<close>: \<^verbatim>\<open>undefined\<close> past the end\<close>
  "index xs i = (if i < length xs then Some (xs ! i) else None)"

subsection \<open>32-bit integer operators\<close>

text \<open>
  The bitwise operators convert their operands to 32-bit integers. \<^verbatim>\<open><<\<close> and
  \<^verbatim>\<open>^\<close> give a signed result, \<^verbatim>\<open>>>>\<close> an unsigned one.
\<close>

definition ToUint32 :: "number \<Rightarrow> int" where
  "ToUint32 x = (case x of NaN \<Rightarrow> 0
     | Num q \<Rightarrow> (if q < 0 then - \<lfloor>- q\<rfloor> else \<lfloor>q\<rfloor>) mod 2 ^ 32)"

definition js_shl :: "int \<Rightarrow> nat \<Rightarrow> int" where
  "js_shl a k = sint (push_bit k (word_of_int a :: 32 word))"

definition js_ushr :: "int \<Rightarrow> nat \<Rightarrow> int" where
  "js_ushr a k = uint (drop_bit k (word_of_int a :: 32 word))"

definition js_xor :: "int \<Rightarrow> int \<Rightarrow> int" where
  "js_xor a b = sint ((word_of_int a :: 32 word) XOR word_of_int b)"

section \<open>XORShift32 (src/lib/prng.ts)\<close>

record XORShift32 =
  state :: int

definition XORShift32_new :: "number \<Rightarrow> XORShift32" where
  \<comment> \<open>the constructor\<close>
  "XORShift32_new seed =
     (let s = ToUint32 seed in \<lparr>state = (if s = 0 then 1 else s)\<rparr>)"

definition XORShift32_next :: "XORShift32 \<Rightarrow> number \<times> XORShift32" where
  \<comment> \<open>\<^verbatim>\<open>next()\<close>: the returned value and the generator after the call\<close>
  "XORShift32_next g =
     (let s1 = js_xor (state g) (js_shl (state g) 13);
          s2 = js_xor s1 (js_ushr s1 17);
          s3 = js_xor s2 (js_shl s2 5);
          s4 = js_ushr s3 0
      in (fdiv (num_of_int s4) (Num 4294967296), g\<lparr>state := s4\<rparr>))"

definition getState :: "XORShift32 \<Rightarrow> int" where
  "getState g = state g"

subsection \<open>The generator as the specification words it\<close>

text \<open>
  The state as an unsigned 32-bit word: left shift by 13, right shift by 17, left shift
  by 5, each XORed into the state and kept to 32 bits. \<open>xorshift32_states n w\<close> lists
  the \<open>n\<close> states that follow \<open>w\<close>.
\<close>

definition xorshift32 :: "32 word \<Rightarrow> 32 word" where
  "xorshift32 w =
     (let a = w XOR push_bit 13 w;
          b = a XOR drop_bit 17 a
      in b XOR push_bit 5 b)"

fun xorshift32_states :: "nat \<Rightarrow> 32 word \<Rightarrow> 32 word list" where
  "xorshift32_states 0 w = []"
| "xorshift32_states (Suc n) w = xorshift32 w # xorshift32_states n (xorshift32 w)"

fun XORShift32_outputs :: "nat \<Rightarrow> XORShift32 \<Rightarrow> number list" where
  \<comment> \<open>the values of \<open>n\<close> calls of \<^verbatim>\<open>next()\<close> in a row\<close>
  "XORShift32_outputs 0 g = []"
| "XORShift32_outputs (Suc n) g =
     fst (XORShift32_next g) # XORShift32_outputs n (snd (XORShift32_next g))"

section \<open>Strings and SHA-256\<close>

text \<open>
  A string is a list of characters with codes 0 to 255, each one UTF-16 code unit of the
  JavaScript string. \<^verbatim>\<open>createHash('sha256').update(s).digest('hex')\<close> hashes the
  UTF-8 encoding of \<open>s\<close> with SHA-256 (FIPS 180-4) and prints the digest as 64
  lower-case hexadecimal digits.
\<close>

definition utf8 :: "string \<Rightarrow> nat list" where
  "utf8 s = concat (map (\<lambda>c. if of_char c < (128::nat) then [of_char c]
                              else [192 + of_char c div 64, 128 + of_char c mod 64]) s)"

type_synonym u32 = "32 word"

definition add32 :: "u32 \<Rightarrow> u32 \<Rightarrow> u32" where
  \<comment> \<open>addition modulo \<open>2^32\<close>\<close>
  "add32 a b = a + b"

definition rotr :: "nat \<Rightarrow> u32 \<Rightarrow> u32" where
  "rotr n x = drop_bit n x OR push_bit (32 - n) x"

definition Ch :: "u32 \<Rightarrow> u32 \<Rightarrow> u32 \<Rightarrow> u32" where
  "Ch x y z = (x AND y) XOR (NOT x AND z)"

definition Maj :: "u32 \<Rightarrow> u32 \<Rightarrow> u32 \<Rightarrow> u32" where
  "Maj x y z = (x AND y) XOR (x AND z) XOR (y AND z)"

definition bsig0 :: "u32 \<Rightarrow> u32" where
  "bsig0 x = rotr 2 x XOR rotr 13 x XOR rotr 22 x"

definition bsig1 :: "u32 \<Rightarrow> u32" where
  "bsig1 x = rotr 6 x XOR rotr 11 x XOR rotr 25 x"

definition ssig0 :: "u32 \<Rightarrow> u32" where
  "ssig0 x = rotr 7 x XOR rotr 18 x XOR drop_bit 3 x"

definition ssig1 :: "u32 \<Rightarrow> u32" where
  "ssig1 x = rotr 17 x XOR rotr 19 x XOR drop_bit 10 x"

definition K256 :: "u32 list" where
  \<comment> \<open>the 64 round constants of FIPS 180-4, section 4.2.2, in decimal\<close>
  "K256 = [
   1116352408, 1899447441, 3049323471, 3921009573, 961987163, 1508970993, 2453635748, 2870763221,
   3624381080, 310598401, 607225278, 1426881987, 1925078388, 2162078206, 2614888103, 3248222580,
   3835390401, 4022224774, 264347078, 604807628, 770255983, 1249150122, 1555081692, 1996064986,
   2554220882, 2821834349, 2952996808, 3210313671, 3336571891, 3584528711, 113926993, 338241895,
   666307205, 773529912, 1294757372, 1396182291, 1695183700, 1986661051, 2177026350, 2456956037,
   2730485921, 2820302411, 3259730800, 3345764771, 3516065817, 3600352804, 4094571909, 275423344,
   430227734, 506948616, 659060556, 883997877, 958139571, 1322822218, 1537002063, 1747873779,
   1955562222, 2024104815, 2227730452, 2361852424, 2428436474, 2756734187, 3204031479, 3329325298]"

definition H0 :: "u32 list" where
  \<comment> \<open>the initial hash value of FIPS 180-4, section 5.3.3, in decimal\<close>
  "H0 = [1779033703, 3144134277, 1013904242, 2773480762,
         1359893119, 2600822924, 528734635, 1541459225]"

fun be_bytes :: "nat \<Rightarrow> nat \<Rightarrow> nat list" where
  \<comment> \<open>the \<open>k\<close> low bytes of \<open>n\<close>, most significant first\<close>
  "be_bytes 0 n = []"
| "be_bytes (Suc k) n = be_bytes k (n div 256) @ [n mod 256]"

definition pad :: "nat list \<Rightarrow> nat list" where
  \<comment> \<open>a one bit, zeros up to 56 modulo 64 bytes, the bit length on 64 bits\<close>
  "pad m = m @ [128] @ replicate ((119 - length m mod 64) mod 64) 0
             @ be_bytes (Suc (Suc (Suc (Suc (Suc (Suc (Suc (Suc 0)))))))) (8 * length m)"

fun be_words :: "nat list \<Rightarrow> u32 list" where
  "be_words (a # b # c # d # rest) =
     of_nat (a * 16777216 + b * 65536 + c * 256 + d) # be_words rest"
| "be_words _ = []"

definition advance :: "u32 list \<Rightarrow> u32 list" where
  \<comment> \<open>the window of the last 16 schedule words, oldest first, moved on by one word\<close>
  "advance w = tl w @ [add32 (add32 (add32 (ssig1 (w ! 14)) (w ! 9)) (ssig0 (w ! 1))) (w ! 0)]"

definition shift_in :: "u32 \<Rightarrow> u32 \<Rightarrow> u32 list \<Rightarrow> u32 list" where
  "shift_in t1 t2 s = [add32 t1 t2, s ! 0, s ! 1, s ! 2, add32 (s ! 3) t1, s ! 4, s ! 5, s ! 6]"

definition step :: "u32 \<Rightarrow> u32 \<Rightarrow> u32 list \<Rightarrow> u32 list" where
  \<comment> \<open>one round on the working variables \<open>[a, b, c, d, e, f, g, h]\<close>\<close>
  "step k w s =
     shift_in (add32 (add32 (add32 (add32 (s ! 7) (bsig1 (s ! 4))) (Ch (s ! 4) (s ! 5) (s ! 6))) k) w)
              (add32 (bsig0 (s ! 0)) (Maj (s ! 0) (s ! 1) (s ! 2))) s"

fun rounds :: "u32 list \<Rightarrow> u32 list \<Rightarrow> u32 list \<Rightarrow> u32 list" where
  "rounds [] w s = s"
| "rounds (k # ks) w s = rounds ks (advance w) (step k (hd w) s)"

definition compress :: "u32 list \<Rightarrow> u32 list \<Rightarrow> u32 list" where
  "compress s blk = map2 add32 s (rounds K256 blk s)"

fun blocks :: "u32 list \<Rightarrow> u32 list \<Rightarrow> u32 list" where
  "blocks s ws = (if length ws < 16 then s
                  else blocks (compress s (take 16 ws)) (drop 16 ws))"

declare blocks.simps [simp del]

definition sha256 :: "nat list \<Rightarrow> u32 list" where
  "sha256 m = blocks H0 (be_words (pad m))"

definition hexdigit :: "nat \<Rightarrow> char" where
  "hexdigit n = ''0123456789abcdef'' ! n"

definition hex_of_byte :: "nat \<Rightarrow> string" where
  "hex_of_byte n = [hexdigit (n div 16), hexdigit (n mod 16)]"

definition hex_of_u32 :: "u32 \<Rightarrow> string" where
  "hex_of_u32 w = concat (map hex_of_byte (be_bytes (Suc (Suc (Suc (Suc 0)))) (unat w)))"

definition sha256_hex :: "string \<Rightarrow> string" where
  "sha256_hex s = concat (map hex_of_u32 (sha256 (utf8 s)))"

section \<open>ProvablyFairProtocol (src/lib/prng.ts)\<close>

subsection \<open>\<^verbatim>\<open>parseInt(s, 16)\<close>\<close>

text \<open>
  \<^verbatim>\<open>parseInt\<close> with radix 16 skips leading white space, takes one optional sign, skips
  an optional \<^verbatim>\<open>0x\<close> or \<^verbatim>\<open>0X\<close>, and reads the longest run of hexadecimal digits
  that follows. With no digit there the result is \<open>NaN\<close>. The white space characters
  with a code below 256 are tab, line feed, vertical tab, form feed, carriage return,
  space and the no-break space.
\<close>

definition isWhiteSpace :: "char \<Rightarrow> bool" where
  "isWhiteSpace c = (of_char c \<in> {9, 10, 11, 12, 13, 32, 160 :: nat})"

definition hexDigitValue :: "char \<Rightarrow> nat option" where
  "hexDigitValue c =
     (let n = of_char c :: nat in
      if 48 \<le> n \<and> n \<le> 57 then Some (n - 48)
      else if 97 \<le> n \<and> n \<le> 102 then Some (n - 87)
      else if 65 \<le> n \<and> n \<le> 70 then Some (n - 55)
      else None)"

fun hexDigits :: "string \<Rightarrow> nat list" where
  \<comment> \<open>the values of the longest prefix of hexadecimal digits\<close>
  "hexDigits [] = []"
| "hexDigits (c # cs) = (case hexDigitValue c of None \<Rightarrow> [] | Some d \<Rightarrow> d # hexDigits cs)"

definition stripSign :: "string \<Rightarrow> int \<times> string" where
  "stripSign s = (case s of [] \<Rightarrow> (1, [])
     | c # cs \<Rightarrow> if c = CHR ''-'' then (- 1, cs) else if c = CHR ''+'' then (1, cs) else (1, s))"

definition stripPrefix :: "string \<Rightarrow> string" where
  "stripPrefix s = (case s of c # d # cs \<Rightarrow>
       if c = CHR ''0'' \<and> (d = CHR ''x'' \<or> d = CHR ''X'') then cs else s
     | _ \<Rightarrow> s)"

definition parseInt16 :: "string \<Rightarrow> number" where
  "parseInt16 s =
     (case stripSign (dropWhile isWhiteSpace s) of (sign, s1) \<Rightarrow>
        (case hexDigits (stripPrefix s1) of [] \<Rightarrow> NaN
         | d # ds \<Rightarrow> num_of_int (sign * int (foldl (\<lambda>acc v. 16 * acc + v) 0 (d # ds)))))"

subsection \<open>The protocol functions\<close>

definition createCommitHash :: "string \<Rightarrow> string \<Rightarrow> string" where
  "createCommitHash serverSeed nonce = sha256_hex (serverSeed @ '':'' @ nonce)"

definition generateCombinedSeed :: "string \<Rightarrow> string \<Rightarrow> string \<Rightarrow> string" where
  "generateCombinedSeed serverSeed clientSeed nonce =
     sha256_hex (serverSeed @ '':'' @ clientSeed @ '':'' @ nonce)"

definition extractPRNGSeed :: "string \<Rightarrow> number" where
  "extractPRNGSeed combinedSeed = (let hexSeed = take 8 combinedSeed in parseInt16 hexSeed)"

definition verifyCommit :: "string \<Rightarrow> string \<Rightarrow> string \<Rightarrow> bool" where
  "verifyCommit serverSeed nonce commitHash =
     (let expectedHash = createCommitHash serverSeed nonce in expectedHash = commitHash)"

section \<open>RoundRNG (src/lib/prng.ts)\<close>

record RoundRNG =
  prng :: XORShift32
  callCount :: nat

definition RoundRNG_new :: "string \<Rightarrow> RoundRNG" where
  \<comment> \<open>the constructor\<close>
  "RoundRNG_new combinedSeed =
     (let seed = extractPRNGSeed combinedSeed
      in \<lparr>prng = XORShift32_new seed, callCount = 0\<rparr>)"

definition RoundRNG_next :: "RoundRNG \<Rightarrow> number \<times> RoundRNG" where
  \<comment> \<open>\<^verbatim>\<open>next()\<close>: the returned value and the source after the call\<close>
  "RoundRNG_next r =
     (case XORShift32_next (prng r) of
        (v, g) \<Rightarrow> (v, \<lparr>prng = g, callCount = callCount r + 1\<rparr>))"

definition getCallCount :: "RoundRNG \<Rightarrow> nat" where
  "getCallCount r = callCount r"

definition reset :: "RoundRNG \<Rightarrow> string \<Rightarrow> RoundRNG" where
  "reset r combinedSeed =
     (let seed = extractPRNGSeed combinedSeed
      in r\<lparr>prng := XORShift32_new seed, callCount := 0\<rparr>)"

subsection \<open>The stream of draws\<close>

text \<open>
  The values a random source is going to return: \<open>after n rng\<close> is the source once \<open>n\<close>
  values are drawn, \<open>draw rng k\<close> the value of call \<open>k + 1\<close> from now, and
  \<open>draws n rng\<close> the next \<open>n\<close> values in order.
\<close>

definition after :: "nat \<Rightarrow> RoundRNG \<Rightarrow> RoundRNG" where
  "after n rng = ((\<lambda>r. snd (RoundRNG_next r)) ^^ n) rng"

definition draw :: "RoundRNG \<Rightarrow> nat \<Rightarrow> number" where
  "draw rng k = fst (RoundRNG_next (after k rng))"

definition triangular :: "nat \<Rightarrow> nat" where
  \<comment> \<open>the number of pegs above row \<open>r\<close>\<close>
  "triangular r = r * (r + 1) div 2"

fun draws :: "nat \<Rightarrow> RoundRNG \<Rightarrow> number list" where
  "draws 0 rng = []"
| "draws (Suc n) rng = fst (RoundRNG_next rng) # draws n (snd (RoundRNG_next rng))"

section \<open>PlinkoEngine\<close>

definition ROWS :: nat where
  "ROWS = 12"

definition BINS :: nat where
  "BINS = ROWS + 1"

datatype error = TypeError

subsection \<open>generatePegMap\<close>

definition leftBias_of :: "number \<Rightarrow> number" where
  \<comment> \<open>the body of the inner loop: \<open>leftBias\<close> from the draw, then \<open>roundedBias\<close>\<close>
  "leftBias_of randomValue =
     (let leftBias = fadd (lit (1 / 2)) (fmul (fsub randomValue (lit (1 / 2))) (lit (1 / 5)));
          roundedBias = fdiv (Math_round (fmul leftBias (Num 1000000))) (Num 1000000)
      in roundedBias)"

function pegRow_loop :: "RoundRNG \<Rightarrow> nat \<Rightarrow> nat \<Rightarrow> number list \<Rightarrow> number list \<times> RoundRNG" where
  \<comment> \<open>\<^verbatim>\<open>for (let peg = 0; peg <= row; peg++)\<close>\<close>
  "pegRow_loop rng row peg pegRow =
     (if peg \<le> row then
        (case RoundRNG_next rng of
           (randomValue, rng') \<Rightarrow>
             pegRow_loop rng' row (peg + 1) (pegRow @ [leftBias_of randomValue]))
      else (pegRow, rng))"
  by pat_completeness auto
termination
  by (relation "measure (\<lambda>(rng, row, peg, pegRow). Suc row - peg)") auto

function pegMap_loop :: "RoundRNG \<Rightarrow> nat \<Rightarrow> nat \<Rightarrow> number list list \<Rightarrow> number list list \<times> RoundRNG" where
  \<comment> \<open>\<^verbatim>\<open>for (let row = 0; row < rows; row++)\<close>\<close>
  "pegMap_loop rng rows row pegMap =
     (if row < rows then
        (case pegRow_loop rng row 0 [] of
           (pegRow, rng') \<Rightarrow> pegMap_loop rng' rows (row + 1) (pegMap @ [pegRow]))
      else (pegMap, rng))"
  by pat_completeness auto
termination
  by (relation "measure (\<lambda>(rng, rows, row, pegMap). rows - row)") auto

definition generatePegMap :: "RoundRNG \<Rightarrow> nat \<Rightarrow> number list list \<times> RoundRNG" where
  \<comment> \<open>the peg map and the random source after the draws\<close>
  "generatePegMap rng rows = pegMap_loop rng rows 0 []"

subsection \<open>createPegMapHash\<close>

text \<open>
  \<^verbatim>\<open>JSON.stringify\<close> prints a number with the fewest decimal digits that read back
  as the same double (\<^verbatim>\<open>Number.prototype.toString\<close>): digits \<open>s\<close>, their count
  \<open>k\<close> and the position \<open>n\<close> of the decimal point with \<open>s * 10^(n - k)\<close> rounding
  to the number and \<open>k\<close> least; of two such \<open>s\<close> the one nearer to the number. \<open>NaN\<close>
  is printed as \<^verbatim>\<open>null\<close>.
\<close>

definition ilog10 :: "rat \<Rightarrow> int" where
  \<comment> \<open>for \<open>x > 0\<close>, the exponent \<open>e\<close> with \<open>10^e \<le> x < 10^(e+1)\<close>\<close>
  "ilog10 x = (if 1 \<le> x then int (floorlog 10 (nat \<lfloor>x\<rfloor>)) - 1
               else - int (floorlog 10 (nat (\<lceil>1 / x\<rceil> - 1))))"

fun decimal_digits :: "nat \<Rightarrow> nat \<Rightarrow> string" where
  \<comment> \<open>the \<open>k\<close> low decimal digits of \<open>s\<close>\<close>
  "decimal_digits 0 s = []"
| "decimal_digits (Suc k) s = decimal_digits k (s div 10) @ [''0123456789'' ! (s mod 10)]"

definition nat_to_string :: "nat \<Rightarrow> string" where
  "nat_to_string n = (if n = 0 then ''0'' else decimal_digits (floorlog 10 n) n)"

definition carry :: "int \<times> int \<times> int \<Rightarrow> int \<times> int \<times> int" where
  \<comment> \<open>digits \<open>10^k\<close> are the digits \<open>10^(k-1)\<close> one place higher\<close>
  "carry t = (case t of (s, k, n) \<Rightarrow> if s = 10 ^ nat k then (10 ^ nat (k - 1), k, n + 1) else t)"

fun shortest :: "nat \<Rightarrow> int \<Rightarrow> rat \<Rightarrow> int \<Rightarrow> int \<times> int \<times> int" where
  \<comment> \<open>the search for the least \<open>k\<close>, from \<open>k\<close> upwards; 17 digits always suffice\<close>
  "shortest 0 k x n = (\<lfloor>x / 10 powi (n - k)\<rfloor>, k, n)"
| "shortest (Suc fuel) k x n =
     (let p = 10 powi (n - k);
          lo = \<lfloor>x / p\<rfloor>;
          hi = lo + 1;
          ok_lo = (fl (of_int lo * p) = x);
          ok_hi = (fl (of_int hi * p) = x)
      in if ok_lo \<and> ok_hi then
           (if x - of_int lo * p < of_int hi * p - x
               \<or> (x - of_int lo * p = of_int hi * p - x \<and> even lo)
            then (lo, k, n) else carry (hi, k, n))
         else if ok_lo then (lo, k, n)
         else if ok_hi then carry (hi, k, n)
         else shortest fuel (k + 1) x n)"

definition positive_toString :: "rat \<Rightarrow> string" where
  "positive_toString x =
     (case shortest 17 1 x (ilog10 x + 1) of
        (s, k, n) \<Rightarrow>
          (let d = decimal_digits (nat k) (nat s) in
           if k \<le> n \<and> n \<le> 21 then d @ replicate (nat (n - k)) CHR ''0''
           else if 0 < n \<and> n \<le> 21 then take (nat n) d @ ''.'' @ drop (nat n) d
           else if - 6 < n \<and> n \<le> 0 then ''0.'' @ replicate (nat (- n)) CHR ''0'' @ d
           else (if k = 1 then d else hd d # ''.'' @ tl d)
                  @ ''e'' @ (if n - 1 < 0 then ''-'' else ''+'') @ nat_to_string (nat \<bar>n - 1\<bar>)))"

fun json_number :: "number \<Rightarrow> string" where
  "json_number NaN = ''null''"
| "json_number (Num x) =
     (if x = 0 then ''0'' else if x < 0 then ''-'' @ positive_toString (- x)
      else positive_toString x)"

fun commas :: "string list \<Rightarrow> string" where
  "commas [] = []"
| "commas [x] = x"
| "commas (x # y # ys) = x @ '','' @ commas (y # ys)"

definition JSON_stringify :: "number list list \<Rightarrow> string" where
  "JSON_stringify pegMap =
     ''['' @ commas (map (\<lambda>pegRow. ''['' @ commas (map json_number pegRow) @ '']'') pegMap) @ '']''"

definition createPegMapHash :: "number list list \<Rightarrow> string" where
  "createPegMapHash pegMap = sha256_hex (JSON_stringify pegMap)"

subsection \<open>simulateDrop\<close>

datatype direction = Left | Right

record GamePath =
  row :: nat
  column :: nat
  direction :: direction
  pegBias :: "number option"
  randomValue :: number
  adjustedBias :: number

function simulateDrop_loop ::
  "RoundRNG \<Rightarrow> number list list \<Rightarrow> number \<Rightarrow> nat \<Rightarrow> nat \<Rightarrow> GamePath list
     \<Rightarrow> error + GamePath list \<times> RoundRNG" where
  \<comment> \<open>\<^verbatim>\<open>for (let row = 0; row < ROWS; row++)\<close>, at row \<open>r\<close>; reading a row the peg
      map does not have throws \<open>TypeError\<close>, reading past the end of a row gives
      \<^verbatim>\<open>undefined\<close>\<close>
  "simulateDrop_loop rng pegMap adj r pos path =
     (if r < ROWS then
        (case index pegMap r of
           None \<Rightarrow> Inl TypeError
         | Some pegRow \<Rightarrow>
             (let pegIndex = min pos r;
                  leftBias = index pegRow pegIndex;
                  adjustedBias = Math_max (Num 0) (Math_min (Num 1) (fadd (ToNumber leftBias) adj))
              in case RoundRNG_next rng of
                (rnd, rng') \<Rightarrow>
                  (let direction = (if lt rnd adjustedBias then Left else Right);
                       pos' = (if direction = Right then pos + 1 else pos)
                   in simulateDrop_loop rng' pegMap adj (r + 1) pos'
                        (path @ [\<lparr>row = r, column = pos', direction = direction,
                                  pegBias = leftBias, randomValue = rnd,
                                  adjustedBias = adjustedBias\<rparr>]))))
      else Inr (path, rng))"
  by pat_completeness auto
termination
  by (relation "measure (\<lambda>(rng, pegMap, adj, r, pos, path). ROWS - r)") auto

definition simulateDrop ::
  "RoundRNG \<Rightarrow> number list list \<Rightarrow> number \<Rightarrow> error + GamePath list \<times> RoundRNG" where
  \<comment> \<open>\<open>dropColumn\<close> is any number, \<open>NaN\<close> included; a drop column that is
      \<^verbatim>\<open>undefined\<close> behaves as \<open>NaN\<close>, the subtraction being its only use\<close>
  "simulateDrop rng pegMap dropColumn =
     (let adj = fmul (fsub dropColumn
                           (Math_floor (fdiv (num_of_nat ROWS) (Num 2)))) (lit (1 / 100))
      in simulateDrop_loop rng pegMap adj 0 0 [])"

subsection \<open>getPayoutMultipliers\<close>

definition multiplier_of :: "nat \<Rightarrow> nat \<Rightarrow> number" where
  \<comment> \<open>the body of the loop, for bin \<open>i\<close>\<close>
  "multiplier_of bins i =
     (let center = Math_floor (fdiv (num_of_nat bins) (Num 2));
          distance = Math_abs (fsub (num_of_nat i) center);
          multiplier = fadd (lit (1 / 2)) (fmul distance (lit (3 / 10)))
      in fdiv (Math_round (fmul multiplier (Num 100))) (Num 100))"

definition getPayoutMultipliers :: "nat \<Rightarrow> number list" where
  \<comment> \<open>\<^verbatim>\<open>for (let i = 0; i < bins; i++)\<close>: one entry for each bin\<close>
  "getPayoutMultipliers bins = map (multiplier_of bins) [0..<bins]"

text \<open>
  The table as the specification words it: the multiplier of bin \<open>i\<close> is
  \<open>0.5 + |i - floor(bins / 2)| * 0.3\<close> rounded to two decimals.
\<close>

definition round_2dp :: "number \<Rightarrow> number" where
  "round_2dp x = fdiv (Math_round (fmul x (Num 100))) (Num 100)"

definition multiplier_spec :: "nat \<Rightarrow> nat \<Rightarrow> number" where
  "multiplier_spec bins i =
     round_2dp (fadd (lit (1 / 2))
                     (fmul (num_of_nat (nat \<bar>int i - int (bins div 2)\<bar>)) (lit (3 / 10))))"

subsection \<open>playRound\<close>

record GameResult =
  pegMap :: "number list list"
  pegMapHash :: string
  path :: "GamePath list"
  binIndex :: nat
  payoutMultiplier :: "number option"
  payoutCents :: number
  rows :: nat
  combinedSeed :: string

definition playRound ::
  "string \<Rightarrow> string \<Rightarrow> string \<Rightarrow> number \<Rightarrow> nat \<Rightarrow> number \<Rightarrow> error + GameResult" where
  \<comment> \<open>\<open>nrows\<close> is the argument \<^verbatim>\<open>rows\<close>; \<open>dropColumn\<close> and \<open>betCents\<close> are any
      numbers, \<open>NaN\<close> included; an empty path would make
      \<^verbatim>\<open>path[path.length - 1].column\<close> throw\<close>
  "playRound serverSeed clientSeed nonce dropColumn nrows betCents =
     (let combinedSeed = sha256_hex (serverSeed @ '':'' @ clientSeed @ '':'' @ nonce);
          rng = RoundRNG_new combinedSeed
      in case generatePegMap rng nrows of
        (pm, rng1) \<Rightarrow>
          (let pegMapHash = createPegMapHash pm
           in case simulateDrop rng1 pm dropColumn of
             Inl e \<Rightarrow> Inl e
           | Inr (steps, rng2) \<Rightarrow>
               (case steps of
                  [] \<Rightarrow> Inl TypeError
                | _ # _ \<Rightarrow>
                    (let binIndex = column (last steps);
                         multipliers = getPayoutMultipliers BINS;
                         payoutMultiplier = index multipliers binIndex;
                         payoutCents =
                           Math_round (fmul betCents (ToNumber payoutMultiplier))
                     in Inr \<lparr>pegMap = pm, pegMapHash = pegMapHash, path = steps,
                              binIndex = binIndex, payoutMultiplier = payoutMultiplier,
                              payoutCents = payoutCents, rows = nrows,
                              combinedSeed = combinedSeed\<rparr>))))"

section \<open>The test vector (src/verify-test-vector.js)\<close>

definition tv_serverSeed :: string where
  "tv_serverSeed = ''b2a5f3f32a4d9c6ee7a8c1d33456677890abcdeffedcba0987654321ffeeddcc''"

definition tv_clientSeed :: string where
  "tv_clientSeed = ''candidate-hello''"

definition tv_nonce :: string where
  "tv_nonce = ''42''"

definition tv_combinedSeed :: string where
  "tv_combinedSeed = ''e1dddf77de27d395ea2be2ed49aa2a59bd6bf12ee8d350c16c008abd406c07e0''"

lemma ilog2_bounds:
  assumes "0 < x"
  shows "2 powi (ilog2 x) \<le> x" and "x < 2 powi (ilog2 x + 1)"
proof -
  have "2 powi (ilog2 x) \<le> x \<and> x < 2 powi (ilog2 x + 1)"
  proof (cases "1 \<le> x")
    case True
    define n where "n = \<lfloor>x\<rfloor>"
    have n: "0 < n" using True by (simp add: n_def)
    from bitlen_bounds[OF n] have b: "2 ^ nat (bitlen n - 1) \<le> n" "n < 2 ^ nat (bitlen n)"
      by auto
    have b1: "1 \<le> bitlen n" using n by (simp add: bitlen_alt_def)
    have e: "ilog2 x = bitlen n - 1" using True by (simp add: ilog2_def n_def)
    have "(2::rat) powi (bitlen n - 1) = 2 ^ nat (bitlen n - 1)"
      using b1 by (simp add: power_int_nonneg_exp)
    also have "\<dots> = of_int (2 ^ nat (bitlen n - 1))" by simp
    also have "\<dots> \<le> of_int n" using b(1) by (simp only: of_int_le_iff)
    also have "\<dots> \<le> x" by (simp add: n_def)
    finally have lo: "2 powi (ilog2 x) \<le> x" by (simp add: e)
    have "n + 1 \<le> 2 ^ nat (bitlen n)" using b(2) by simp
    then have "(of_int (n + 1) :: rat) \<le> of_int (2 ^ nat (bitlen n))"
      by (simp only: of_int_le_iff)
    moreover have "x < of_int (n + 1)" using floor_correct[of x] by (simp add: n_def)
    ultimately have "x < of_int (2 ^ nat (bitlen n))" by linarith
    also have "\<dots> = 2 powi (bitlen n)" using b1 by (simp add: power_int_nonneg_exp)
    finally have hi: "x < 2 powi (ilog2 x + 1)" by (simp add: e)
    from lo hi show ?thesis ..
  next
    case False
    define y where "y = 1 / x"
    define m where "m = \<lceil>y\<rceil> - 1"
    have y1: "1 < y" using False assms by (simp add: y_def)
    have m: "0 < m" using y1 by (simp add: m_def less_ceiling_iff)
    have my: "of_int m < y" "y \<le> of_int m + 1"
      unfolding m_def by (simp_all add: less_ceiling_iff[symmetric] ceiling_correct)
    from bitlen_bounds[OF m] have b: "2 ^ nat (bitlen m - 1) \<le> m" "m < 2 ^ nat (bitlen m)"
      by auto
    have b1: "1 \<le> bitlen m" using m by (simp add: bitlen_alt_def)
    have e: "ilog2 x = - bitlen m" using False by (simp add: ilog2_def m_def y_def)
    have "m + 1 \<le> 2 ^ nat (bitlen m)" using b(2) by simp
    then have "(of_int (m + 1) :: rat) \<le> of_int (2 ^ nat (bitlen m))"
      by (simp only: of_int_le_iff)
    then have "y \<le> 2 ^ nat (bitlen m)" using my(2) by simp
    also have "\<dots> = 2 powi (bitlen m)" using b1 by (simp add: power_int_nonneg_exp)
    finally have "1 / x \<le> 2 powi (bitlen m)" by (simp add: y_def)
    then have "1 \<le> 2 powi (bitlen m) * x" using assms by (simp add: field_simps)
    then have lo: "2 powi (ilog2 x) \<le> x"
      by (simp add: e power_int_minus field_simps)
    have "(of_int (2 ^ nat (bitlen m - 1)) :: rat) \<le> of_int m"
      using b(1) by (simp only: of_int_le_iff)
    moreover have "(of_int (2 ^ nat (bitlen m - 1)) :: rat) = 2 ^ nat (bitlen m - 1)" by simp
    ultimately have "(2::rat) ^ nat (bitlen m - 1) < y" using my(1) by linarith
    moreover have "(2::rat) ^ nat (bitlen m - 1) = 2 powi (bitlen m - 1)"
      using b1 by (simp add: power_int_nonneg_exp)
    ultimately have "2 powi (bitlen m - 1) < 1 / x" by (simp add: y_def)
    then have "x * 2 powi (bitlen m - 1) < 1" using assms by (simp add: field_simps)
    then have "x < 1 / 2 powi (bitlen m - 1)"
      by (simp only: pos_less_divide_eq[OF zero_less_power_int[OF zero_less_numeral]])
    moreover have "ilog2 x + 1 = - (bitlen m - 1)" by (simp add: e)
    ultimately have hi: "x < 2 powi (ilog2 x + 1)"
      by (simp only: power_int_minus_divide)
    from lo hi show ?thesis ..
  qed
  then show "2 powi (ilog2 x) \<le> x" and "x < 2 powi (ilog2 x + 1)" by auto
qed


lemma rne_of_int: "rne (of_int n) = n"
  by (simp add: rne_def)

lemma rne_floor_le: "\<lfloor>r\<rfloor> \<le> rne r" and rne_le_floor: "rne r \<le> \<lfloor>r\<rfloor> + 1"
  by (simp_all add: rne_def Let_def)

lemma rne_mono:
  assumes "x \<le> y"
  shows "rne x \<le> rne y"
proof (cases "\<lfloor>x\<rfloor> = \<lfloor>y\<rfloor>")
  case True
  with assms show ?thesis by (auto simp: rne_def Let_def)
next
  case False
  with assms have "\<lfloor>x\<rfloor> + 1 \<le> \<lfloor>y\<rfloor>" using floor_mono[OF assms] by linarith
  with rne_le_floor[of x] rne_floor_le[of y] show ?thesis by linarith
qed

lemma fl_zero: "fl 0 = 0"
  by (simp add: fl_def)

lemma fl_pos:
  "0 < x \<Longrightarrow> fl x = of_int (rne (x * 2 powi (52 - ilog2 x))) * 2 powi (ilog2 x - 52)"
  by (simp add: fl_def)

lemma fl_minus: "fl (- x) = - fl x"
  by (simp add: fl_def sgn_minus)

lemma fl_neg: "x < 0 \<Longrightarrow> fl x = - fl (- x)"
  by (simp add: fl_minus)

lemma scaled_bounds:
  assumes "0 < x"
  shows "2 ^ 52 \<le> x * 2 powi (52 - ilog2 x)" and "x * 2 powi (52 - ilog2 x) < 2 ^ 53"
proof -
  have p: "0 < (2::rat) powi (52 - ilog2 x)" by simp
  have "(2::rat) ^ 52 = 2 powi (ilog2 x) * 2 powi (52 - ilog2 x)"
    by (simp flip: power_int_add)
  also have "\<dots> \<le> x * 2 powi (52 - ilog2 x)"
    using ilog2_bounds(1)[OF assms] p by (simp only: mult_le_cancel_right_pos)
  finally show "2 ^ 52 \<le> x * 2 powi (52 - ilog2 x)" .
  have "x * 2 powi (52 - ilog2 x) < 2 powi (ilog2 x + 1) * 2 powi (52 - ilog2 x)"
    using ilog2_bounds(2)[OF assms] p by (simp only: mult_less_cancel_right_pos)
  also have "\<dots> = 2 ^ 53" by (simp flip: power_int_add)
  finally show "x * 2 powi (52 - ilog2 x) < 2 ^ 53" .
qed

lemma rne_scaled_bounds:
  assumes "0 < x"
  shows "2 ^ 52 \<le> rne (x * 2 powi (52 - ilog2 x))" and "rne (x * 2 powi (52 - ilog2 x)) \<le> 2 ^ 53"
proof -
  have "rne (of_int (2 ^ 52)) \<le> rne (x * 2 powi (52 - ilog2 x))"
    using scaled_bounds(1)[OF assms] by (intro rne_mono) simp
  then show "2 ^ 52 \<le> rne (x * 2 powi (52 - ilog2 x))" by (simp only: rne_of_int)
  have "rne (x * 2 powi (52 - ilog2 x)) \<le> rne (of_int (2 ^ 53))"
    using scaled_bounds(2)[OF assms] by (intro rne_mono) simp
  then show "rne (x * 2 powi (52 - ilog2 x)) \<le> 2 ^ 53" by (simp only: rne_of_int)
qed

lemma fl_pos_bounds:
  assumes "0 < x"
  shows "2 powi (ilog2 x) \<le> fl x" and "fl x \<le> 2 powi (ilog2 x + 1)"
proof -
  have p: "0 < (2::rat) powi (ilog2 x - 52)" by simp
  have "(2::rat) powi (ilog2 x) = of_int (2 ^ 52) * 2 powi (ilog2 x - 52)"
    using power_int_add[of "2::rat" 52 "ilog2 x - 52"] by simp
  also have "\<dots> \<le> of_int (rne (x * 2 powi (52 - ilog2 x))) * 2 powi (ilog2 x - 52)"
    using rne_scaled_bounds(1)[OF assms] p
    by (simp only: mult_le_cancel_right_pos of_int_le_iff)
  finally show "2 powi (ilog2 x) \<le> fl x" by (simp only: fl_pos[OF assms])
  have "of_int (rne (x * 2 powi (52 - ilog2 x))) * 2 powi (ilog2 x - 52)
      \<le> of_int (2 ^ 53) * (2::rat) powi (ilog2 x - 52)"
    using rne_scaled_bounds(2)[OF assms] p
    by (simp only: mult_le_cancel_right_pos of_int_le_iff)
  also have "\<dots> = 2 powi (ilog2 x + 1)"
    using power_int_add[of "2::rat" 53 "ilog2 x - 52"] by (simp add: algebra_simps)
  finally show "fl x \<le> 2 powi (ilog2 x + 1)" by (simp only: fl_pos[OF assms])
qed

lemma fl_pos_gt0: "0 < x \<Longrightarrow> 0 < fl x"
  using fl_pos_bounds(1)[of x] zero_less_power_int[of "2::rat" "ilog2 x"] by linarith

lemma ilog2_mono:
  assumes "0 < x" "x \<le> y"
  shows "ilog2 x \<le> ilog2 y"
proof (rule ccontr)
  assume "\<not> ilog2 x \<le> ilog2 y"
  then have "ilog2 y + 1 \<le> ilog2 x" by simp
  then have "(2::rat) powi (ilog2 y + 1) \<le> 2 powi (ilog2 x)"
    by (intro power_int_increasing) auto
  moreover have "0 < y" using assms by linarith
  ultimately show False
    using ilog2_bounds(1)[OF assms(1)] ilog2_bounds(2)[of y] assms(2) by linarith
qed

lemma fl_mono_pos:
  assumes "0 < x" "x \<le> y"
  shows "fl x \<le> fl y"
proof -
  have y: "0 < y" using assms by linarith
  show ?thesis
  proof (cases "ilog2 x = ilog2 y")
    case True
    have p: "0 < (2::rat) powi (52 - ilog2 y)" by simp
    have "x * 2 powi (52 - ilog2 y) \<le> y * 2 powi (52 - ilog2 y)"
      using assms(2) p by (simp only: mult_le_cancel_right_pos)
    then have "rne (x * 2 powi (52 - ilog2 y)) \<le> rne (y * 2 powi (52 - ilog2 y))"
      by (rule rne_mono)
    then have "of_int (rne (x * 2 powi (52 - ilog2 y))) * (2::rat) powi (ilog2 y - 52)
        \<le> of_int (rne (y * 2 powi (52 - ilog2 y))) * 2 powi (ilog2 y - 52)"
      by (simp only: mult_le_cancel_right_pos zero_less_power_int zero_less_numeral of_int_le_iff)
    then show ?thesis using True by (simp only: fl_pos[OF assms(1)] fl_pos[OF y])
  next
    case False
    with ilog2_mono[OF assms] have "ilog2 x + 1 \<le> ilog2 y" by simp
    then have "(2::rat) powi (ilog2 x + 1) \<le> 2 powi (ilog2 y)"
      by (intro power_int_increasing) auto
    with fl_pos_bounds(2)[OF assms(1)] fl_pos_bounds(1)[OF y] show ?thesis by linarith
  qed
qed

lemma fl_mono:
  assumes "x \<le> y"
  shows "fl x \<le> fl y"
proof -
  consider "0 < x" | "x = 0" "y = 0" | "x = 0" "0 < y" | "x < 0" "0 \<le> y" | "x < 0" "y < 0"
    using assms by linarith
  then show ?thesis
  proof cases
    case 1
    then show ?thesis using assms by (rule fl_mono_pos)
  next
    case 2
    then show ?thesis by simp
  next
    case 3
    then show ?thesis using fl_pos_gt0[of y] by (simp add: fl_zero)
  next
    case 4
    have "fl x < 0" using fl_pos_gt0[of "- x"] 4(1) by (simp add: fl_minus)
    moreover have "0 \<le> fl y"
      using fl_pos_gt0[of y] 4(2) by (cases "y = 0") (auto simp: fl_zero less_eq_rat_def)
    ultimately show ?thesis by linarith
  next
    case 5
    then have "fl (- y) \<le> fl (- x)" using assms by (intro fl_mono_pos) auto
    then show ?thesis by (simp add: fl_minus)
  qed
qed

lemma fl_exact_pos:
  assumes "0 < m" "m < 2 ^ 53"
  shows "fl (of_int m * 2 powi k) = of_int m * 2 powi k"
proof -
  define x :: rat where "x = of_int m * 2 powi k"
  have x: "0 < x" using assms by (simp add: x_def)
  have "2 powi (ilog2 x) \<le> x" by (rule ilog2_bounds(1)[OF x])
  also have "x < of_int (2 ^ 53) * 2 powi k"
    unfolding x_def using assms(2)
    by (simp only: mult_less_cancel_right_pos zero_less_power_int zero_less_numeral of_int_less_iff)
  also have "\<dots> = 2 powi (53 + k)" by (simp add: power_int_add)
  finally have lt: "2 powi (ilog2 x) < (2::rat) powi (53 + k)" .
  have "ilog2 x < 53 + k"
  proof (rule ccontr)
    assume "\<not> ilog2 x < 53 + k"
    then have "(2::rat) powi (53 + k) \<le> 2 powi (ilog2 x)"
      by (intro power_int_increasing) auto
    with lt show False by linarith
  qed
  then have n: "0 \<le> 52 - ilog2 x + k" by simp
  have "x * 2 powi (52 - ilog2 x) = of_int m * 2 powi (52 - ilog2 x + k)"
    by (simp add: x_def power_int_add mult_ac)
  also have "\<dots> = of_int (m * 2 ^ nat (52 - ilog2 x + k))"
    using n by (simp add: power_int_nonneg_exp)
  finally have "rne (x * 2 powi (52 - ilog2 x)) = m * 2 ^ nat (52 - ilog2 x + k)"
    by (simp only: rne_of_int)
  then have "fl x = of_int (m * 2 ^ nat (52 - ilog2 x + k)) * 2 powi (ilog2 x - 52)"
    by (simp only: fl_pos[OF x])
  also have "\<dots> = of_int m * (2 powi (52 - ilog2 x + k) * 2 powi (ilog2 x - 52))"
    using n by (simp add: power_int_nonneg_exp)
  also have "\<dots> = of_int m * 2 powi k"
    by (simp flip: power_int_add)
  finally show ?thesis by (simp add: x_def)
qed

lemma fl_exact:
  assumes "\<bar>m\<bar> < 2 ^ 53"
  shows "fl (of_int m * 2 powi k) = of_int m * 2 powi k"
proof -
  consider "m = 0" | "0 < m" | "m < 0" by linarith
  then show ?thesis
  proof cases
    case 1
    then show ?thesis by (simp add: fl_zero)
  next
    case 2
    then show ?thesis using assms by (intro fl_exact_pos) auto
  next
    case 3
    then have "fl (of_int (- m) * 2 powi k) = of_int (- m) * 2 powi k"
      using assms by (intro fl_exact_pos) auto
    then have "fl (- (of_int m * 2 powi k)) = - (of_int m * 2 powi k)" by simp
    then show ?thesis by (simp only: fl_minus neg_equal_iff_equal)
  qed
qed

lemma fl_of_int: "\<bar>m\<bar> < 2 ^ 53 \<Longrightarrow> fl (of_int m) = of_int m"
  using fl_exact[of m 0] by simp




lemma js_xor_word: "js_xor (sint (v :: 32 word)) (sint w) = sint (v XOR w)"
  by (simp add: js_xor_def)

lemma js_xor_word_u: "js_xor (sint (v :: 32 word)) (uint w) = sint (v XOR w)"
  by (simp add: js_xor_def)

lemma js_shl_word: "js_shl (sint (w :: 32 word)) k = sint (push_bit k w)"
  by (simp add: js_shl_def)

lemma js_ushr_word: "js_ushr (sint (w :: 32 word)) k = uint (drop_bit k w)"
  by (simp add: js_ushr_def)

lemma state_step:
  "js_ushr (js_xor (js_xor (js_xor s (js_shl s 13)) (js_ushr (js_xor s (js_shl s 13)) 17))
       (js_shl (js_xor (js_xor s (js_shl s 13)) (js_ushr (js_xor s (js_shl s 13)) 17)) 5)) 0
   = uint (xorshift32 (word_of_int s))"
proof -
  define w :: "32 word" where "w = word_of_int s"
  have shl: "js_shl s 13 = sint (push_bit 13 w)" by (simp add: js_shl_def w_def)
  have s1: "js_xor s (js_shl s 13) = sint (w XOR push_bit 13 w)"
    by (simp add: js_xor_def shl w_def)
  show ?thesis
    unfolding s1 js_ushr_word js_xor_word_u js_shl_word js_xor_word xorshift32_def Let_def w_def[symmetric]
    by simp
qed

lemma uint32_bounds: "0 \<le> uint (w :: 32 word)" "uint (w :: 32 word) < 2 ^ 32"
  using uint_bounded[of w] by simp_all

lemma two_powi_m32: "(2::rat) powi (- 32) = 1 / 4294967296"
  by (simp add: power_int_minus_divide)

lemma fl_u32_div:
  assumes "0 \<le> n" "n < 4294967296"
  shows "fl (fl (of_int n) / 4294967296) = of_int n / 4294967296"
proof -
  have b: "\<bar>n\<bar> < 2 ^ 53" using assms by simp
  have "fl (of_int n * 2 powi (- 32)) = of_int n * 2 powi (- 32)"
    using b by (rule fl_exact)
  then have "fl (of_int n / 4294967296) = of_int n / 4294967296"
    by (simp only: two_powi_m32 times_divide_eq_right mult_1_right)
  then show ?thesis by (simp only: fl_of_int[OF b])
qed

lemma XORShift32_next_word:
  "XORShift32_next g =
     (Num (of_int (uint (xorshift32 (word_of_int (state g)))) / 4294967296),
      g\<lparr>state := uint (xorshift32 (word_of_int (state g)))\<rparr>)"
proof -
  have "uint (xorshift32 (word_of_int (state g))) < 4294967296"
    using uint32_bounds(2)[of "xorshift32 (word_of_int (state g))"] by simp
  then show ?thesis
    unfolding XORShift32_next_def Let_def state_step num_of_int_def fdiv.simps
    by (simp only: fl_u32_div[OF uint32_bounds(1)] rel_simps if_False)
qed

declare pegRow_loop.simps [simp del] pegMap_loop.simps [simp del] simulateDrop_loop.simps [simp del]

lemma RoundRNG_next_word:
  "RoundRNG_next r =
     (Num (of_int (uint (xorshift32 (word_of_int (state (prng r))))) / 4294967296),
      \<lparr>prng = (prng r)\<lparr>state := uint (xorshift32 (word_of_int (state (prng r))))\<rparr>,
       callCount = callCount r + 1\<rparr>)"
  by (simp add: RoundRNG_next_def XORShift32_next_word)

lemma after_0: "after 0 rng = rng"
  by (simp add: after_def)

lemma after_Suc: "after (Suc n) rng = after n (snd (RoundRNG_next rng))"
  by (simp add: after_def funpow_Suc_right del: funpow.simps)

lemma after_Suc_right: "after (Suc n) rng = snd (RoundRNG_next (after n rng))"
  by (simp add: after_def)

lemma after_add: "after (m + n) rng = after n (after m rng)"
  by (simp add: after_def add.commute[of m n] funpow_add)

lemma callCount_after: "callCount (after n rng) = callCount rng + n"
  by (induction n) (simp_all add: after_0 after_Suc_right RoundRNG_next_word)

lemma draw_0: "draw rng 0 = fst (RoundRNG_next rng)"
  by (simp add: draw_def after_0)

lemma draw_Suc: "draw rng (Suc k) = draw (snd (RoundRNG_next rng)) k"
  by (simp add: draw_def after_Suc)

lemma draw_after: "draw (after m rng) k = draw rng (m + k)"
  by (simp add: draw_def after_add)

lemma draws_eq_map: "draws n rng = map (draw rng) [0..<n]"
proof (induction n arbitrary: rng)
  case 0
  show ?case by simp
next
  case (Suc n)
  have "map (draw rng) [0..<Suc n] = draw rng 0 # map (draw rng) (map Suc [0..<n])"
    by (simp only: upt_conv_Cons[OF zero_less_Suc] map_Suc_upt list.map)
  also have "\<dots> = fst (RoundRNG_next rng) # map (draw (snd (RoundRNG_next rng))) [0..<n]"
    by (simp add: draw_0 draw_Suc comp_def)
  finally show ?case by (simp add: Suc.IH)
qed

lemma triangular_Suc: "triangular (Suc r) = triangular r + r + 1"
proof -
  have "Suc r * (Suc r + 1) div 2 = (r * (r + 1) + (r + 1) * 2) div 2"
    by (simp add: algebra_simps)
  also have "\<dots> = r * (r + 1) div 2 + (r + 1)" by simp
  finally show ?thesis by (simp add: triangular_def)
qed

lemma triangular_0: "triangular 0 = 0"
  by (simp add: triangular_def)

lemma triangular_mono: "a \<le> b \<Longrightarrow> triangular a \<le> triangular b"
  by (induction b) (auto simp: triangular_Suc le_Suc_eq)

lemma pegRow_loop_eq:
  "peg \<le> rw + 1 \<Longrightarrow>
   pegRow_loop rng rw peg acc =
     (acc @ map (\<lambda>p. leftBias_of (draw rng (p - peg))) [peg..<rw + 1],
      after (rw + 1 - peg) rng)"
proof (induction "rw + 1 - peg" arbitrary: rng peg acc)
  case 0
  then have "peg = rw + 1" by simp
  then show ?case by (simp add: pegRow_loop.simps after_0)
next
  case (Suc n)
  then have le: "peg \<le> rw" and n: "n = rw + 1 - (peg + 1)" by simp_all
  have up: "[peg..<rw + 1] = peg # [peg + 1..<rw + 1]"
    using le by (simp add: upt_conv_Cons)
  have a: "rw + 1 - peg = Suc (rw + 1 - (peg + 1))" using le by simp
  obtain u rng' where nx: "RoundRNG_next rng = (u, rng')" by (cases "RoundRNG_next rng")
  have IH: "pegRow_loop rng' rw (peg + 1) (acc @ [leftBias_of u]) =
      ((acc @ [leftBias_of u]) @ map (\<lambda>p. leftBias_of (draw rng' (p - (peg + 1)))) [peg + 1..<rw + 1],
       after (rw + 1 - (peg + 1)) rng')"
    using Suc.hyps(1)[OF n, of rng' "acc @ [leftBias_of u]"] le by simp
  have m: "map (\<lambda>p. leftBias_of (draw rng' (p - (peg + 1)))) [peg + 1..<rw + 1]
         = map (\<lambda>p. leftBias_of (draw rng (p - peg))) [peg + 1..<rw + 1]"
  proof (rule map_cong[OF refl])
    fix p assume "p \<in> set [peg + 1..<rw + 1]"
    then have "p - peg = Suc (p - (peg + 1))" by auto
    then show "leftBias_of (draw rng' (p - (peg + 1))) = leftBias_of (draw rng (p - peg))"
      using nx by (simp add: draw_Suc)
  qed
  have u: "u = draw rng 0" using nx by (simp add: draw_0)
  have "pegRow_loop rng rw peg acc = pegRow_loop rng' rw (peg + 1) (acc @ [leftBias_of u])"
    using le nx by (subst pegRow_loop.simps) simp
  also note IH
  finally show ?case
    unfolding m up a after_Suc using nx u by simp
qed

lemma pegRow_loop_row:
  "pegRow_loop rng rw 0 [] =
     (map (\<lambda>p. leftBias_of (draw rng p)) [0..<rw + 1], after (rw + 1) rng)"
  using pegRow_loop_eq[of 0 rw rng "[]"] by simp

lemma pegMap_loop_eq:
  "rw \<le> nrows \<Longrightarrow>
   pegMap_loop rng nrows rw acc =
     (acc @ map (\<lambda>r. map (\<lambda>p. leftBias_of (draw rng (triangular r - triangular rw + p)))
                        [0..<r + 1]) [rw..<nrows],
      after (triangular nrows - triangular rw) rng)"
proof (induction "nrows - rw" arbitrary: rng rw acc)
  case 0
  then have "rw = nrows" by simp
  then show ?case by (simp add: pegMap_loop.simps after_0)
next
  case (Suc n)
  then have lt: "rw < nrows" and n: "n = nrows - (rw + 1)" by simp_all
  define rng' where "rng' = after (rw + 1) rng"
  define pegRow where "pegRow = map (\<lambda>p. leftBias_of (draw rng p)) [0..<rw + 1]"
  have up: "[rw..<nrows] = rw # [rw + 1..<nrows]"
    using lt by (simp add: upt_conv_Cons)
  have IH: "pegMap_loop rng' nrows (rw + 1) (acc @ [pegRow]) =
      ((acc @ [pegRow]) @ map (\<lambda>r. map (\<lambda>p. leftBias_of (draw rng' (triangular r - triangular (rw + 1) + p)))
                        [0..<r + 1]) [rw + 1..<nrows],
      after (triangular nrows - triangular (rw + 1)) rng')"
    using Suc.hyps(1)[OF n, of rng' "acc @ [pegRow]"] lt by simp
  have m: "map (\<lambda>r. map (\<lambda>p. leftBias_of (draw rng' (triangular r - triangular (rw + 1) + p)))
                        [0..<r + 1]) [rw + 1..<nrows]
         = map (\<lambda>r. map (\<lambda>p. leftBias_of (draw rng (triangular r - triangular rw + p)))
                        [0..<r + 1]) [rw + 1..<nrows]"
  proof (rule map_cong[OF refl], rule map_cong[OF refl])
    fix r p assume "r \<in> set [rw + 1..<nrows]"
    then have "rw + 1 \<le> r" by simp
    then have "triangular (rw + 1) \<le> triangular r" by (rule triangular_mono)
    then have "rw + 1 + (triangular r - triangular (rw + 1) + p) = triangular r - triangular rw + p"
      using triangular_Suc[of rw] by simp
    then show "leftBias_of (draw rng' (triangular r - triangular (rw + 1) + p))
             = leftBias_of (draw rng (triangular r - triangular rw + p))"
      by (simp only: rng'_def draw_after)
  qed
  have a: "after (triangular nrows - triangular (rw + 1)) rng' = after (triangular nrows - triangular rw) rng"
  proof -
    have "triangular (rw + 1) \<le> triangular nrows" using lt by (intro triangular_mono) simp
    then have "rw + 1 + (triangular nrows - triangular (rw + 1)) = triangular nrows - triangular rw"
      using triangular_Suc[of rw] by simp
    then show ?thesis by (simp only: rng'_def after_add[symmetric])
  qed
  have "pegMap_loop rng nrows rw acc = pegMap_loop rng' nrows (rw + 1) (acc @ [pegRow])"
    using lt by (subst pegMap_loop.simps) (simp add: pegRow_loop_row rng'_def pegRow_def)
  also note IH
  finally show ?case
    unfolding m a up by (simp add: pegRow_def)
qed

lemma generatePegMap_eq:
  "generatePegMap rng nrows =
     (map (\<lambda>r. map (\<lambda>p. leftBias_of (draw rng (triangular r + p))) [0..<r + 1]) [0..<nrows],
      after (triangular nrows) rng)"
  unfolding generatePegMap_def using pegMap_loop_eq[of 0 nrows rng "[]"]
  by (simp add: triangular_0)

lemma bitlen_eval:
  "bitlen (numeral n) = bitlen (numeral n div 2) + 1"
  "bitlen 1 = 1"
  by (subst compute_bitlen, simp)+

lemma floor_rat_eval:
  "\<lfloor>numeral a / numeral b :: rat\<rfloor> = numeral a div numeral b"
  "\<lfloor>- (numeral a / numeral b) :: rat\<rfloor> = - numeral a div numeral b"
  "\<lceil>numeral a / numeral b :: rat\<rceil> = - (- numeral a div numeral b)"
  using floor_divide_of_int_eq[of "numeral a" "numeral b", where ?'a = rat]
        floor_divide_of_int_eq[of "- numeral a" "numeral b", where ?'a = rat]
  by (simp_all add: ceiling_def)

lemmas fl_eval = fl_def ilog2_def rne_def bitlen_eval floor_rat_eval Let_def

lemma fl_half: "fl (1 / 2) = 1 / 2"
  by (simp add: fl_eval)

lemma fl_fifth: "fl (1 / 5) = 3602879701896397 / 18014398509481984"
  by (simp add: fl_eval)

lemma fl_two_fifths: "fl (2 / 5) = 3602879701896397 / 9007199254740992"
  by (simp add: fl_eval)

lemma fl_three_fifths: "fl (3 / 5) = 5404319552844595 / 9007199254740992"
  by (simp add: fl_eval)

lemma fl_tenth: "fl (3602879701896397 / 36028797018963968) = 3602879701896397 / 36028797018963968"
  by (simp add: fl_eval)

lemma fl_lo: "fl (1 / 2 + - (3602879701896397 / 36028797018963968)) = 3602879701896397 / 9007199254740992"
  by (simp add: fl_eval)

lemma fl_hi: "fl (1 / 2 + 3602879701896397 / 36028797018963968) = 5404319552844595 / 9007199254740992"
  by (simp add: fl_eval)

lemma fl_lo6: "fl (3602879701896397 / 9007199254740992 * 1000000) = 400000"
  by (simp add: fl_eval)

lemma fl_hi6: "fl (5404319552844595 / 9007199254740992 * 1000000) = 600000"
  by (simp add: fl_eval)

text \<open>the scaled bias, before \<open>Math.round\<close>, as a function of the draw\<close>

lemma scaled_bias_bounds:
  assumes "0 \<le> q" "q \<le> 1"
  shows "400000 \<le> fl (fl (1 / 2 + fl (fl (q - 1 / 2) * (3602879701896397 / 18014398509481984))) * 1000000)"
    and "fl (fl (1 / 2 + fl (fl (q - 1 / 2) * (3602879701896397 / 18014398509481984))) * 1000000) \<le> 600000"
proof -
  let ?c = "3602879701896397 / 18014398509481984 :: rat"
  let ?d = "fl (q - 1 / 2)"
  have "fl (- (1 / 2)) \<le> ?d" using assms(1) by (intro fl_mono) simp
  then have d_lo: "- (1 / 2) \<le> ?d" by (simp add: fl_minus fl_half)
  have "?d \<le> fl (1 / 2)" using assms(2) by (intro fl_mono) simp
  then have d_hi: "?d \<le> 1 / 2" by (simp add: fl_half)
  have "- (1 / 2) * ?c \<le> ?d * ?c" using d_lo by (intro mult_right_mono) simp_all
  then have "fl (- (3602879701896397 / 36028797018963968)) \<le> fl (?d * ?c)"
    by (intro fl_mono) simp
  then have m_lo: "- (3602879701896397 / 36028797018963968) \<le> fl (?d * ?c)"
    by (simp add: fl_minus fl_tenth)
  have "?d * ?c \<le> 1 / 2 * ?c" using d_hi by (intro mult_right_mono) simp_all
  then have "fl (?d * ?c) \<le> fl (3602879701896397 / 36028797018963968)"
    by (intro fl_mono) simp
  then have m_hi: "fl (?d * ?c) \<le> 3602879701896397 / 36028797018963968"
    by (simp add: fl_tenth)
  have "fl (1 / 2 + - (3602879701896397 / 36028797018963968)) \<le> fl (1 / 2 + fl (?d * ?c))"
    using m_lo by (intro fl_mono) simp
  then have s_lo: "3602879701896397 / 9007199254740992 \<le> fl (1 / 2 + fl (?d * ?c))"
    by (simp only: fl_lo)
  have "fl (1 / 2 + fl (?d * ?c)) \<le> fl (1 / 2 + 3602879701896397 / 36028797018963968)"
    using m_hi by (intro fl_mono) simp
  then have s_hi: "fl (1 / 2 + fl (?d * ?c)) \<le> 5404319552844595 / 9007199254740992"
    by (simp only: fl_hi)
  have "fl (3602879701896397 / 9007199254740992 * 1000000) \<le> fl (fl (1 / 2 + fl (?d * ?c)) * 1000000)"
    using s_lo by (intro fl_mono) simp
  then show "400000 \<le> fl (fl (1 / 2 + fl (?d * ?c)) * 1000000)" by (simp only: fl_lo6)
  have "fl (fl (1 / 2 + fl (?d * ?c)) * 1000000) \<le> fl (5404319552844595 / 9007199254740992 * 1000000)"
    using s_hi by (intro fl_mono) simp
  then show "fl (fl (1 / 2 + fl (?d * ?c)) * 1000000) \<le> 600000" by (simp only: fl_hi6)
qed

lemma leftBias_of_Num:
  "leftBias_of (Num q) =
     Num (fl (of_int \<lfloor>fl (fl (1 / 2 + fl (fl (q - 1 / 2) * (3602879701896397 / 18014398509481984))) * 1000000) + 1 / 2\<rfloor> / 1000000))"
  by (simp add: leftBias_of_def lit_def fl_half fl_fifth)

lemma leftBias_of_bounds:
  assumes "0 \<le> q" "q \<le> 1"
  shows "\<exists>b. leftBias_of (Num q) = Num b \<and> 2 / 5 \<le> b \<and> b \<le> 3 / 5"
proof -
  let ?s = "fl (fl (1 / 2 + fl (fl (q - 1 / 2) * (3602879701896397 / 18014398509481984))) * 1000000)"
  let ?n = "\<lfloor>?s + 1 / 2\<rfloor>"
  have "\<lfloor>400000 + 1 / 2 :: rat\<rfloor> \<le> ?n"
    using scaled_bias_bounds(1)[OF assms] by (intro floor_mono) simp
  then have n_lo: "400000 \<le> ?n" by (simp add: floor_rat_eval)
  have "?n \<le> \<lfloor>600000 + 1 / 2 :: rat\<rfloor>"
    using scaled_bias_bounds(2)[OF assms] by (intro floor_mono) simp
  then have n_hi: "?n \<le> 600000" by (simp add: floor_rat_eval)
  have "(2 / 5 :: rat) \<le> of_int ?n / 1000000" using n_lo by simp
  then have "fl (2 / 5) \<le> fl (of_int ?n / 1000000)" by (rule fl_mono)
  then have lo: "2 / 5 \<le> fl (of_int ?n / 1000000)" by (simp add: fl_two_fifths)
  have "of_int ?n / 1000000 \<le> (3 / 5 :: rat)" using n_hi by simp
  then have "fl (of_int ?n / 1000000) \<le> fl (3 / 5)" by (rule fl_mono)
  then have hi: "fl (of_int ?n / 1000000) \<le> 3 / 5" by (simp add: fl_three_fifths)
  show ?thesis
    unfolding leftBias_of_Num using lo hi by blast
qed

lemma draw_Num:
  "\<exists>q. draw rng k = Num q \<and> 0 \<le> q \<and> q < 1"
proof -
  define n where "n = uint (xorshift32 (word_of_int (state (prng (after k rng)))))"
  have d: "draw rng k = Num (of_int n / 4294967296)"
    unfolding draw_def RoundRNG_next_word n_def by (simp only: fst_conv)
  have n: "0 \<le> n" "n < 4294967296"
    unfolding n_def using uint32_bounds by simp_all
  have "0 \<le> (of_int n :: rat) / 4294967296" using n(1) by simp
  moreover have "(of_int n :: rat) / 4294967296 < 1" using n(2) by simp
  ultimately show ?thesis using d by blast
qed

lemma leftBias_of_draw:
  "\<exists>b. leftBias_of (draw rng k) = Num b \<and> 2 / 5 \<le> b \<and> b \<le> 3 / 5"
proof -
  obtain q where "draw rng k = Num q" "0 \<le> q" "q < 1" using draw_Num by blast
  then show ?thesis using leftBias_of_bounds[of q] by simp
qed

lemma RoundRNG_next_after:
  "RoundRNG_next (after k rng) = (draw rng k, after (Suc k) rng)"
  by (simp add: draw_def after_Suc_right)

lemma index_Some: "i < length xs \<Longrightarrow> index xs i = Some (xs ! i)"
  by (simp add: index_def)

lemma index_None: "length xs \<le> i \<Longrightarrow> index xs i = None"
  by (simp add: index_def)

lemma clamp_Num:
  "Math_max (Num 0) (Math_min (Num 1) (fadd (Num q) (Num a))) = Num (max 0 (min 1 (fl (q + a))))"
  by simp

lemma clamp_NaN: "Math_max (Num 0) (Math_min (Num 1) (fadd x NaN)) = NaN"
  by (cases x) simp_all

lemma simulateDrop_loop_step_any:
  assumes "r < ROWS" "r < length pm" "pos < length (pm ! r)" "pos \<le> r"
    and "pm ! r ! pos = Num q"
  shows "simulateDrop_loop (after r rng0) pm adj r pos acc =
     simulateDrop_loop (after (Suc r) rng0) pm adj (r + 1)
       (if lt (draw rng0 r) (Math_max (Num 0) (Math_min (Num 1) (fadd (Num q) adj))) then pos else pos + 1)
       (acc @ [\<lparr>row = r,
                 column = (if lt (draw rng0 r) (Math_max (Num 0) (Math_min (Num 1) (fadd (Num q) adj))) then pos else pos + 1),
                 direction = (if lt (draw rng0 r) (Math_max (Num 0) (Math_min (Num 1) (fadd (Num q) adj))) then Left else Right),
                 pegBias = Some (Num q), randomValue = draw rng0 r,
                 adjustedBias = Math_max (Num 0) (Math_min (Num 1) (fadd (Num q) adj))\<rparr>])"
  using assms
  by (subst simulateDrop_loop.simps)
     (simp add: index_Some RoundRNG_next_after Let_def min_absorb1 del: Math_max.simps Math_min.simps fadd.simps lt.simps)

lemma simulateDrop_loop_step:
  assumes "r < ROWS" "r < length pm" "pos < length (pm ! r)" "pos \<le> r"
    and "pm ! r ! pos = Num q"
  shows "simulateDrop_loop (after r rng0) pm (Num a) r pos acc =
     simulateDrop_loop (after (Suc r) rng0) pm (Num a) (r + 1)
       (if lt (draw rng0 r) (Num (max 0 (min 1 (fl (q + a))))) then pos else pos + 1)
       (acc @ [\<lparr>row = r,
                 column = (if lt (draw rng0 r) (Num (max 0 (min 1 (fl (q + a))))) then pos else pos + 1),
                 direction = (if lt (draw rng0 r) (Num (max 0 (min 1 (fl (q + a))))) then Left else Right),
                 pegBias = Some (Num q), randomValue = draw rng0 r,
                 adjustedBias = Num (max 0 (min 1 (fl (q + a))))\<rparr>])"
  using simulateDrop_loop_step_any[OF assms, of rng0 "Num a" acc]
  by (simp only: clamp_Num)

lemma simulateDrop_loop_good:
  assumes pm: "\<forall>i<ROWS. i < length pm \<and> length (pm ! i) = i + 1 \<and> (\<forall>x\<in>set (pm ! i). \<exists>q. x = Num q)"
  shows "r \<le> ROWS \<Longrightarrow> pos \<le> r \<Longrightarrow> length acc = r \<Longrightarrow>
     (\<forall>i<r. row (acc ! i) = i \<and> column (acc ! i) \<le> i + 1 \<and> randomValue (acc ! i) = draw rng0 i
            \<and> (\<exists>q. pegBias (acc ! i) = Some (Num q)
                  \<and> adjustedBias (acc ! i) = Math_max (Num 0) (Math_min (Num 1) (fadd (Num q) adj)))) \<Longrightarrow>
     \<exists>steps. simulateDrop_loop (after r rng0) pm adj r pos acc = Inr (steps, after ROWS rng0)
        \<and> length steps = ROWS
        \<and> (\<forall>i<ROWS. row (steps ! i) = i \<and> column (steps ! i) \<le> i + 1
               \<and> randomValue (steps ! i) = draw rng0 i
               \<and> (\<exists>q. pegBias (steps ! i) = Some (Num q)
                  \<and> adjustedBias (steps ! i) = Math_max (Num 0) (Math_min (Num 1) (fadd (Num q) adj))))"
proof (induction "ROWS - r" arbitrary: r pos acc)
  case 0
  then have "r = ROWS" by simp
  with 0 show ?case by (subst simulateDrop_loop.simps) simp
next
  case (Suc n)
  then have r: "r < ROWS" and n: "n = ROWS - (r + 1)" by simp_all
  from pm r have len: "r < length pm" "length (pm ! r) = r + 1"
    and nums: "\<forall>x\<in>set (pm ! r). \<exists>q. x = Num q" by auto
  have posl: "pos < length (pm ! r)" using Suc.prems(2) len(2) by simp
  then obtain q where q: "pm ! r ! pos = Num q" using nums nth_mem by blast
  define adjusted where "adjusted = Math_max (Num 0) (Math_min (Num 1) (fadd (Num q) adj))"
  define pos' where "pos' = (if lt (draw rng0 r) adjusted then pos else pos + 1)"
  define st where "st = \<lparr>row = r, column = pos',
      direction = (if lt (draw rng0 r) adjusted then Left else Right),
      pegBias = Some (Num q), randomValue = draw rng0 r, adjustedBias = adjusted\<rparr>"
  have step: "simulateDrop_loop (after r rng0) pm adj r pos acc =
      simulateDrop_loop (after (r + 1) rng0) pm adj (r + 1) pos' (acc @ [st])"
    using simulateDrop_loop_step_any[OF r len(1) posl Suc.prems(2) q, of rng0 adj acc]
    by (simp only: st_def pos'_def adjusted_def Suc_eq_plus1)
  have p1: "r + 1 \<le> ROWS" using r by simp
  have p2: "pos' \<le> r + 1" using Suc.prems(2) by (simp add: pos'_def)
  have p3: "length (acc @ [st]) = r + 1" using Suc.prems(3) by simp
  have p4: "\<forall>i<r + 1. row ((acc @ [st]) ! i) = i \<and> column ((acc @ [st]) ! i) \<le> i + 1
      \<and> randomValue ((acc @ [st]) ! i) = draw rng0 i
      \<and> (\<exists>q. pegBias ((acc @ [st]) ! i) = Some (Num q)
                  \<and> adjustedBias ((acc @ [st]) ! i) = Math_max (Num 0) (Math_min (Num 1) (fadd (Num q) adj)))"
  proof (intro allI impI)
    fix i assume "i < r + 1"
    then consider "i < r" | "i = r" by linarith
    then show "row ((acc @ [st]) ! i) = i \<and> column ((acc @ [st]) ! i) \<le> i + 1
      \<and> randomValue ((acc @ [st]) ! i) = draw rng0 i
      \<and> (\<exists>q. pegBias ((acc @ [st]) ! i) = Some (Num q)
                  \<and> adjustedBias ((acc @ [st]) ! i) = Math_max (Num 0) (Math_min (Num 1) (fadd (Num q) adj)))"
    proof cases
      case 1
      then show ?thesis using Suc.prems(3,4) by (simp add: nth_append)
    next
      case 2
      then show ?thesis using Suc.prems(3) p2 by (simp add: nth_append st_def adjusted_def del: Math_max.simps Math_min.simps fadd.simps)
    qed
  qed
  show ?case
    unfolding step using Suc.hyps(1)[OF n p1 p2 p3 p4] .
qed

lemma simulateDrop_loop_TypeError:
  "r \<le> length pm \<Longrightarrow> length pm < ROWS \<Longrightarrow> pos \<le> r \<Longrightarrow>
   (\<forall>i<length pm. length (pm ! i) = i + 1 \<and> (\<forall>x\<in>set (pm ! i). \<exists>q. x = Num q)) \<Longrightarrow>
   simulateDrop_loop (after r rng0) pm adj r pos acc = Inl TypeError"
proof (induction "length pm - r" arbitrary: r pos acc)
  case 0
  then have "r = length pm" by simp
  with 0 show ?case by (subst simulateDrop_loop.simps) (simp add: index_None)
next
  case (Suc n)
  then have r: "r < length pm" "r < ROWS" and n: "n = length pm - (r + 1)" by simp_all
  from Suc.prems(4) r have len: "length (pm ! r) = r + 1"
    and nums: "\<forall>x\<in>set (pm ! r). \<exists>q. x = Num q" by auto
  have posl: "pos < length (pm ! r)" using Suc.prems(3) len by simp
  then obtain q where q: "pm ! r ! pos = Num q" using nums nth_mem by blast
  define pos' where "pos' = (if lt (draw rng0 r) (Math_max (Num 0) (Math_min (Num 1) (fadd (Num q) adj))) then pos else pos + 1)"
  define acc' where "acc' = acc @ [\<lparr>row = r, column = pos',
      direction = (if lt (draw rng0 r) (Math_max (Num 0) (Math_min (Num 1) (fadd (Num q) adj))) then Left else Right),
      pegBias = Some (Num q), randomValue = draw rng0 r,
      adjustedBias = Math_max (Num 0) (Math_min (Num 1) (fadd (Num q) adj))\<rparr>]"
  have step: "simulateDrop_loop (after r rng0) pm adj r pos acc =
      simulateDrop_loop (after (Suc r) rng0) pm adj (Suc r) pos' acc'"
    using simulateDrop_loop_step_any[OF r(2) r(1) posl Suc.prems(3) q, of rng0 adj acc]
    by (simp only: acc'_def pos'_def Suc_eq_plus1)
  have p1: "Suc r \<le> length pm" using r by simp
  have p2: "pos' \<le> Suc r" using Suc.prems(3) by (simp add: pos'_def)
  have n': "n = length pm - Suc r" using n by simp
  show ?case
    unfolding step using Suc.hyps(1)[OF n' p1 Suc.prems(2) p2 Suc.prems(4)] .
qed

lemma adj_Num:
  "\<exists>a. fmul (fsub (Num d) (Math_floor (fdiv (num_of_nat ROWS) (Num 2)))) (lit (1 / 100)) = Num a"
  by (simp add: num_of_nat_def num_of_int_def lit_def)

lemma adj_NaN:
  "fmul (fsub NaN (Math_floor (fdiv (num_of_nat ROWS) (Num 2)))) (lit (1 / 100)) = NaN"
  by simp

lemma generated_pegMap_rows:
  assumes "i < nrows"
  shows "fst (generatePegMap rng nrows) ! i =
           map (\<lambda>p. leftBias_of (draw rng (triangular i + p))) [0..<i + 1]"
  using assms by (simp add: generatePegMap_eq del: upt_Suc)

lemma length_generated_pegMap: "length (fst (generatePegMap rng nrows)) = nrows"
  by (simp add: generatePegMap_eq)

lemma snd_generatePegMap: "snd (generatePegMap rng nrows) = after (triangular nrows) rng"
  by (simp add: generatePegMap_eq)

lemma generated_pegMap_good:
  assumes "i < nrows"
  shows "i < length (fst (generatePegMap rng nrows))
       \<and> length (fst (generatePegMap rng nrows) ! i) = i + 1
       \<and> (\<forall>x\<in>set (fst (generatePegMap rng nrows) ! i). \<exists>q. x = Num q)"
proof -
  have "\<forall>x\<in>set (map (\<lambda>p. leftBias_of (draw rng (triangular i + p))) [0..<i + 1]). \<exists>q. x = Num q"
    using leftBias_of_draw by fastforce
  then show ?thesis
    using assms by (simp add: generated_pegMap_rows length_generated_pegMap del: upt_Suc)
qed

lemma simulateDrop_generated:
  assumes "ROWS \<le> nrows"
  shows "\<exists>steps. simulateDrop rng1 (fst (generatePegMap rng nrows)) dropColumn
                    = Inr (steps, after ROWS rng1)
        \<and> length steps = ROWS
        \<and> (\<forall>i<ROWS. row (steps ! i) = i \<and> column (steps ! i) \<le> i + 1
               \<and> randomValue (steps ! i) = draw rng1 i
               \<and> (\<exists>q. pegBias (steps ! i) = Some (Num q)
                  \<and> adjustedBias (steps ! i) =
                      Math_max (Num 0) (Math_min (Num 1) (fadd (Num q)
                        (fmul (fsub dropColumn (Math_floor (fdiv (num_of_nat ROWS) (Num 2)))) (lit (1 / 100)))))))"
proof -
  have good: "\<forall>i<ROWS. i < length (fst (generatePegMap rng nrows))
       \<and> length (fst (generatePegMap rng nrows) ! i) = i + 1
       \<and> (\<forall>x\<in>set (fst (generatePegMap rng nrows) ! i). \<exists>q. x = Num q)"
    using generated_pegMap_good assms by (meson less_le_trans)
  show ?thesis
    unfolding simulateDrop_def Let_def
    using simulateDrop_loop_good[OF good, of 0 0 "[]" rng1 "fmul (fsub dropColumn (Math_floor (fdiv (num_of_nat ROWS) (Num 2)))) (lit (1 / 100))"]
    by (simp add: after_0 del: Math_max.simps Math_min.simps fadd.simps fmul.simps fsub.simps)
qed

lemma simulateDrop_short:
  assumes "nrows < ROWS"
  shows "simulateDrop rng1 (fst (generatePegMap rng nrows)) dropColumn = Inl TypeError"
proof -
  have good: "\<forall>i<length (fst (generatePegMap rng nrows)).
       length (fst (generatePegMap rng nrows) ! i) = i + 1
       \<and> (\<forall>x\<in>set (fst (generatePegMap rng nrows) ! i). \<exists>q. x = Num q)"
    using generated_pegMap_good by (simp add: length_generated_pegMap)
  show ?thesis
    unfolding simulateDrop_def Let_def
    using simulateDrop_loop_TypeError[OF _ _ _ good, of 0 0 rng1 "fmul (fsub dropColumn (Math_floor (fdiv (num_of_nat ROWS) (Num 2)))) (lit (1 / 100))" "[]"] assms
    by (simp add: after_0 length_generated_pegMap)
qed

lemma playRound_unfold:
  "playRound serverSeed clientSeed nonce dropColumn nrows betCents =
     (case simulateDrop
             (after (triangular nrows) (RoundRNG_new (generateCombinedSeed serverSeed clientSeed nonce)))
             (fst (generatePegMap (RoundRNG_new (generateCombinedSeed serverSeed clientSeed nonce)) nrows))
             dropColumn of
        Inl e \<Rightarrow> Inl e
      | Inr (steps, rng2) \<Rightarrow>
          (case steps of
             [] \<Rightarrow> Inl TypeError
           | _ # _ \<Rightarrow>
               Inr \<lparr>pegMap = fst (generatePegMap (RoundRNG_new (generateCombinedSeed serverSeed clientSeed nonce)) nrows),
                    pegMapHash = createPegMapHash
                      (fst (generatePegMap (RoundRNG_new (generateCombinedSeed serverSeed clientSeed nonce)) nrows)),
                    path = steps,
                    binIndex = column (last steps),
                    payoutMultiplier = index (getPayoutMultipliers BINS) (column (last steps)),
                    payoutCents = Math_round (fmul betCents
                      (ToNumber (index (getPayoutMultipliers BINS) (column (last steps))))),
                    rows = nrows,
                    combinedSeed = generateCombinedSeed serverSeed clientSeed nonce\<rparr>))"
  unfolding playRound_def generateCombinedSeed_def Let_def
  by (simp add: generatePegMap_eq split: sum.split prod.split list.split)

lemma playRound_short:
  "nrows < ROWS \<Longrightarrow> playRound serverSeed clientSeed nonce dropColumn nrows betCents = Inl TypeError"
  unfolding playRound_unfold by (simp add: simulateDrop_short)

lemma playRound_returns:
  assumes "ROWS \<le> nrows"
  shows "\<exists>steps. length steps = ROWS
     \<and> (\<forall>i<ROWS. row (steps ! i) = i \<and> column (steps ! i) \<le> i + 1
            \<and> randomValue (steps ! i)
                = draw (RoundRNG_new (generateCombinedSeed serverSeed clientSeed nonce)) (triangular nrows + i)
            \<and> (\<exists>q. pegBias (steps ! i) = Some (Num q)
                  \<and> adjustedBias (steps ! i) =
                      Math_max (Num 0) (Math_min (Num 1) (fadd (Num q)
                        (fmul (fsub dropColumn (Math_floor (fdiv (num_of_nat ROWS) (Num 2)))) (lit (1 / 100)))))))
     \<and> playRound serverSeed clientSeed nonce dropColumn nrows betCents =
         Inr \<lparr>pegMap = fst (generatePegMap (RoundRNG_new (generateCombinedSeed serverSeed clientSeed nonce)) nrows),
              pegMapHash = createPegMapHash
                (fst (generatePegMap (RoundRNG_new (generateCombinedSeed serverSeed clientSeed nonce)) nrows)),
              path = steps,
              binIndex = column (last steps),
              payoutMultiplier = index (getPayoutMultipliers BINS) (column (last steps)),
              payoutCents = Math_round (fmul betCents
                (ToNumber (index (getPayoutMultipliers BINS) (column (last steps))))),
              rows = nrows,
              combinedSeed = generateCombinedSeed serverSeed clientSeed nonce\<rparr>"
proof -
  let ?rng0 = "RoundRNG_new (generateCombinedSeed serverSeed clientSeed nonce)"
  obtain steps where s: "simulateDrop (after (triangular nrows) ?rng0)
      (fst (generatePegMap ?rng0 nrows)) dropColumn
        = Inr (steps, after ROWS (after (triangular nrows) ?rng0))"
    and l: "length steps = ROWS"
    and st: "\<forall>i<ROWS. row (steps ! i) = i \<and> column (steps ! i) \<le> i + 1
               \<and> randomValue (steps ! i) = draw (after (triangular nrows) ?rng0) i
               \<and> (\<exists>q. pegBias (steps ! i) = Some (Num q)
                  \<and> adjustedBias (steps ! i) =
                      Math_max (Num 0) (Math_min (Num 1) (fadd (Num q)
                        (fmul (fsub dropColumn (Math_floor (fdiv (num_of_nat ROWS) (Num 2)))) (lit (1 / 100))))))"
    using simulateDrop_generated[OF assms] by blast
  have "steps \<noteq> []" using l by (auto simp: ROWS_def)
  then obtain x xs where "steps = x # xs" by (cases steps) auto
  then have "playRound serverSeed clientSeed nonce dropColumn nrows betCents =
         Inr \<lparr>pegMap = fst (generatePegMap ?rng0 nrows),
              pegMapHash = createPegMapHash (fst (generatePegMap ?rng0 nrows)),
              path = steps,
              binIndex = column (last steps),
              payoutMultiplier = index (getPayoutMultipliers BINS) (column (last steps)),
              payoutCents = Math_round (fmul betCents
                (ToNumber (index (getPayoutMultipliers BINS) (column (last steps))))),
              rows = nrows,
              combinedSeed = generateCombinedSeed serverSeed clientSeed nonce\<rparr>"
    using s unfolding playRound_unfold by auto
  then show ?thesis using l st by (auto simp: draw_after simp del: Math_max.simps Math_min.simps fadd.simps fmul.simps fsub.simps)
qed

lemma adjustedBias_Num:
  "\<exists>b. Math_max (Num 0) (Math_min (Num 1) (fadd (Num q)
          (fmul (fsub (Num d) (Math_floor (fdiv (num_of_nat ROWS) (Num 2)))) (lit (1 / 100))))) = Num b
        \<and> 0 \<le> b \<and> b \<le> 1"
proof -
  obtain a where a: "fmul (fsub (Num d) (Math_floor (fdiv (num_of_nat ROWS) (Num 2)))) (lit (1 / 100)) = Num a"
    using adj_Num by blast
  show ?thesis unfolding a clamp_Num by simp
qed

lemma adjustedBias_NaN:
  "Math_max (Num 0) (Math_min (Num 1) (fadd (Num q)
     (fmul (fsub NaN (Math_floor (fdiv (num_of_nat ROWS) (Num 2)))) (lit (1 / 100))))) = NaN"
  unfolding adj_NaN by simp

lemma playRound_Inr_rows: "playRound serverSeed clientSeed nonce dropColumn nrows betCents = Inr r \<Longrightarrow> ROWS \<le> nrows"
  using playRound_short[of nrows serverSeed clientSeed nonce dropColumn betCents] by (cases "nrows < ROWS") auto

lemma length_getPayoutMultipliers: "length (getPayoutMultipliers bins) = bins"
  by (simp add: getPayoutMultipliers_def)

lemma nth_getPayoutMultipliers:
  "i < bins \<Longrightarrow> getPayoutMultipliers bins ! i = multiplier_of bins i"
  by (simp add: getPayoutMultipliers_def)

lemma nat_abs_bound: "n < 2 ^ 53 \<Longrightarrow> \<bar>int n\<bar> < 2 ^ 53"
proof -
  assume "n < 2 ^ 53"
  then have "int n < 9007199254740992" by simp
  then show ?thesis by simp
qed

lemma num_of_nat_exact: "n < 2 ^ 53 \<Longrightarrow> num_of_nat n = Num (of_nat n)"
  using fl_of_int[OF nat_abs_bound] by (simp add: num_of_nat_def num_of_int_def)

lemma two_powi_m1: "(2::rat) powi (- 1) = 1 / 2"
  by (simp add: power_int_minus_divide)

lemma fl_half_of_nat: "n < 2 ^ 53 \<Longrightarrow> fl (of_nat n / 2) = of_nat n / 2"
  using fl_exact[OF nat_abs_bound, of n "- 1"]
  by (simp only: two_powi_m1 times_divide_eq_right mult_1_right of_int_of_nat_eq)

lemma center_exact:
  assumes "bins < 2 ^ 53"
  shows "Math_floor (fdiv (num_of_nat bins) (Num 2)) = Num (of_nat (bins div 2))"
proof -
  have "\<lfloor>(of_nat bins :: rat) / of_nat 2\<rfloor> = of_nat (bins div 2)"
    by (rule floor_divide_of_nat_eq)
  then show ?thesis
    by (simp add: num_of_nat_exact[OF assms] fl_half_of_nat[OF assms])
qed

lemma distance_exact:
  assumes "i < 2 ^ 53" "c < 2 ^ 53"
  shows "Math_abs (fsub (num_of_nat i) (Num (of_nat c))) = Num (of_nat (nat \<bar>int i - int c\<bar>))"
proof -
  have "int i < 9007199254740992" "int c < 9007199254740992" using assms by simp_all
  then have "\<bar>int i - int c\<bar> < 9007199254740992" by linarith
  then have "\<bar>int i - int c\<bar> < 2 ^ 53" by simp
  from fl_of_int[OF this]
  have "fl (of_nat i - of_nat c) = of_int (int i - int c)" by simp
  then show ?thesis
    by (simp add: num_of_nat_exact[OF assms(1)])
qed

lemma multiplier_of_spec:
  assumes "bins < 2 ^ 53" "i < bins"
  shows "multiplier_of bins i = multiplier_spec bins i"
proof -
  have i: "i < 2 ^ 53" using assms by simp
  have c: "bins div 2 < 2 ^ 53" using assms(1) by simp
  have d: "nat \<bar>int i - int (bins div 2)\<bar> < 2 ^ 53" using i c by linarith
  show ?thesis
    unfolding multiplier_of_def multiplier_spec_def round_2dp_def Let_def
      center_exact[OF assms(1)] distance_exact[OF i c] num_of_nat_exact[OF d] ..
qed

lemma multiplier_spec_mirror:
  assumes "odd bins" "i < bins"
  shows "multiplier_spec bins (bins - 1 - i) = multiplier_spec bins i"
proof -
  obtain c where c: "bins = 2 * c + 1" using assms(1) by (auto elim: oddE)
  have "\<bar>int (bins - 1 - i) - int (bins div 2)\<bar> = \<bar>int i - int (bins div 2)\<bar>"
    using assms(2) unfolding c by simp
  then show ?thesis by (simp only: multiplier_spec_def)
qed

lemma fl_three_tenths: "fl (3 / 10) = 5404319552844595 / 18014398509481984"
  by (simp add: fl_eval)

lemma fl_one: "fl 1 = 1"
  using fl_of_int[of 1] by simp

lemma fl_08: "fl (1 / 2 + 5404319552844595 / 18014398509481984) = 3602879701896397 / 4503599627370496"
  by (simp add: fl_eval)

lemma fl_80: "fl (3602879701896397 / 4503599627370496 * 100) = 80"
  by (simp add: fl_eval)

lemma fl_four_fifths: "fl (4 / 5) = 3602879701896397 / 4503599627370496"
  by (simp add: fl_eval)

lemma multiplier_spec_center: "multiplier_spec bins (bins div 2) = Num (1 / 2)"
  by (simp add: multiplier_spec_def round_2dp_def lit_def num_of_nat_def num_of_int_def
      fl_zero fl_half fl_eval)

lemma multiplier_spec_off_center:
  assumes "i \<noteq> bins div 2"
  shows "\<exists>m. multiplier_spec bins i = Num m \<and> 3602879701896397 / 4503599627370496 \<le> m"
proof -
  let ?c = "5404319552844595 / 18014398509481984 :: rat"
  define d where "d = nat \<bar>int i - int (bins div 2)\<bar>"
  have "1 \<le> d" using assms unfolding d_def by linarith
  then have "fl 1 \<le> fl (of_int (int d))" by (intro fl_mono) simp
  then have d1: "1 \<le> fl (of_int (int d))" by (simp only: fl_one)
  have "1 * ?c \<le> fl (of_int (int d)) * ?c" using d1 by (intro mult_right_mono) simp_all
  then have "fl ?c \<le> fl (fl (of_int (int d)) * ?c)" by (intro fl_mono) simp
  moreover have "fl ?c = ?c" by (simp add: fl_eval)
  ultimately have a: "?c \<le> fl (fl (of_int (int d)) * ?c)" by simp
  have "fl (1 / 2 + ?c) \<le> fl (1 / 2 + fl (fl (of_int (int d)) * ?c))"
    using a by (intro fl_mono) simp
  then have b: "3602879701896397 / 4503599627370496 \<le> fl (1 / 2 + fl (fl (of_int (int d)) * ?c))"
    by (simp only: fl_08)
  have "fl (3602879701896397 / 4503599627370496 * 100)
      \<le> fl (fl (1 / 2 + fl (fl (of_int (int d)) * ?c)) * 100)"
    using b by (intro fl_mono) simp
  then have c: "80 \<le> fl (fl (1 / 2 + fl (fl (of_int (int d)) * ?c)) * 100)"
    by (simp only: fl_80)
  have "\<lfloor>80 + 1 / 2 :: rat\<rfloor> \<le> \<lfloor>fl (fl (1 / 2 + fl (fl (of_int (int d)) * ?c)) * 100) + 1 / 2\<rfloor>"
    using c by (intro floor_mono) simp
  then have n: "80 \<le> \<lfloor>fl (fl (1 / 2 + fl (fl (of_int (int d)) * ?c)) * 100) + 1 / 2\<rfloor>"
    by (simp add: floor_rat_eval)
  have "(4 / 5 :: rat) \<le> of_int \<lfloor>fl (fl (1 / 2 + fl (fl (of_int (int d)) * ?c)) * 100) + 1 / 2\<rfloor> / 100"
    using n by simp
  then have "fl (4 / 5) \<le> fl (of_int \<lfloor>fl (fl (1 / 2 + fl (fl (of_int (int d)) * ?c)) * 100) + 1 / 2\<rfloor> / 100)"
    by (rule fl_mono)
  then have "3602879701896397 / 4503599627370496
      \<le> fl (of_int \<lfloor>fl (fl (1 / 2 + fl (fl (of_int (int d)) * ?c)) * 100) + 1 / 2\<rfloor> / 100)"
    by (simp only: fl_four_fifths)
  then show ?thesis
    by (simp add: multiplier_spec_def round_2dp_def lit_def num_of_nat_def num_of_int_def
        fl_half fl_three_tenths d_def)
qed

section \<open>The claims\<close>

lemma mask32: "(x :: 32 word) AND 0xffffffff = x"
proof -
  have "(0xffffffff :: 32 word) = - 1" by simp
  then show ?thesis by (simp only: word_bw_same and.right_neutral)
qed

lemma xorshift32_eval:
  "xorshift32 w = ((w XOR (push_bit 13 w AND 0xffffffff))
                     XOR drop_bit 17 (w XOR (push_bit 13 w AND 0xffffffff)))
                  XOR (push_bit 5 ((w XOR (push_bit 13 w AND 0xffffffff))
                     XOR drop_bit 17 (w XOR (push_bit 13 w AND 0xffffffff))) AND 0xffffffff)"
  by (simp only: xorshift32_def Let_def mask32)

lemma xorshift32_states_numeral:
  "xorshift32_states (numeral k) w = xorshift32 w # xorshift32_states (pred_numeral k) (xorshift32 w)"
  by (simp add: numeral_eq_Suc)

lemma ToUint32_bounds: "0 \<le> ToUint32 x" "ToUint32 x < 4294967296"
  by (cases x; simp add: ToUint32_def)+

lemma XORShift32_outputs_states:
  "XORShift32_outputs n g =
     map (\<lambda>w. Num (of_int (uint w) / 4294967296)) (xorshift32_states n (word_of_int (state g)))"
proof (induction n arbitrary: g)
  case 0
  show ?case by simp
next
  case (Suc n)
  show ?case by (simp add: XORShift32_next_word Suc.IH)
qed

text \<open>
  C8. The constructor stores the seed as an unsigned 32-bit integer and turns a zero into
  1. Every call of \<open>next()\<close> replaces the state by the state XORed with itself shifted
  left by 13, then right by 17, then left by 5, each on 32 bits (\<open>xorshift32\<close>), and
  returns the new state divided by \<open>2^32\<close>, a value in \<open>[0, 1)\<close>. The values of
  successive calls are those of the successive states, so the value of a call is fixed by
  the state the calls before it left.
\<close>

theorem XORShift32_refines_xorshift32:
  "state (XORShift32_new seed) = (if ToUint32 seed = 0 then 1 else ToUint32 seed)
   \<and> 0 < state (XORShift32_new seed) \<and> state (XORShift32_new seed) < 2 ^ 32
   \<and> XORShift32_next g =
        (Num (of_int (uint (xorshift32 (word_of_int (state g)))) / 2 ^ 32),
         g\<lparr>state := uint (xorshift32 (word_of_int (state g)))\<rparr>)
   \<and> (\<exists>q. fst (XORShift32_next g) = Num q \<and> 0 \<le> q \<and> q < 1)
   \<and> XORShift32_outputs n g =
        map (\<lambda>w. Num (of_int (uint w) / 2 ^ 32)) (xorshift32_states n (word_of_int (state g)))"
proof -
  have s: "state (XORShift32_new seed) = (if ToUint32 seed = 0 then 1 else ToUint32 seed)"
    by (simp add: XORShift32_new_def)
  have b: "0 < state (XORShift32_new seed)" "state (XORShift32_new seed) < 2 ^ 32"
    using ToUint32_bounds[of seed] by (auto simp: s)
  define n' where "n' = uint (xorshift32 (word_of_int (state g)))"
  have n: "0 \<le> n'" "n' < 4294967296" unfolding n'_def using uint32_bounds by simp_all
  have nx: "XORShift32_next g = (Num (of_int n' / 2 ^ 32), g\<lparr>state := n'\<rparr>)"
    unfolding n'_def by (simp add: XORShift32_next_word)
  have "0 \<le> (of_int n' :: rat) / 2 ^ 32" "(of_int n' :: rat) / 2 ^ 32 < 1" using n by simp_all
  moreover have "fst (XORShift32_next g) = Num (of_int n' / 2 ^ 32)"
    unfolding nx by (simp only: fst_conv)
  ultimately have q: "\<exists>q. fst (XORShift32_next g) = Num q \<and> 0 \<le> q \<and> q < 1"
    by blast
  have o: "XORShift32_outputs n g =
        map (\<lambda>w. Num (of_int (uint w) / 2 ^ 32)) (xorshift32_states n (word_of_int (state g)))"
    by (simp add: XORShift32_outputs_states)
  show ?thesis using s b nx[unfolded n'_def] q o by blast
qed

theorem XORShift32_refines_xorshift32_witness:
  "state (XORShift32_new (Num 0)) = 1
   \<and> XORShift32_next \<lparr>state = 1\<rparr> = (Num (270369 / 4294967296), \<lparr>state = 270369\<rparr>)
   \<and> XORShift32_outputs 2 \<lparr>state = 1\<rparr> = [Num (270369 / 4294967296), Num (67634689 / 4294967296)]"
  using XORShift32_refines_xorshift32[of "Num 0" "\<lparr>state = 1\<rparr>" 2]
  by (simp add: ToUint32_def xorshift32_states_numeral xorshift32_eval)

text \<open>
  C9. \<open>createCommitHash\<close> is the hexadecimal SHA-256 digest of the secret, a colon and
  the nonce; \<open>verifyCommit\<close> on that digest is true, and on any string at all it is
  the boolean that says whether the string is that digest: it has no failing branch.
\<close>

theorem verifyCommit_createCommitHash:
  "verifyCommit secret nonce (createCommitHash secret nonce)
   \<and> createCommitHash secret nonce = sha256_hex (secret @ '':'' @ nonce)
   \<and> verifyCommit secret nonce commitment = (commitment = createCommitHash secret nonce)"
  by (auto simp: verifyCommit_def createCommitHash_def)

text \<open>
  C1. Two invocations of \<open>playRound\<close> on the same six inputs return the same Game
  Result: peg map, peg map hash, path with every recorded draw, peg bias and adjusted
  bias, bin index, payout multiplier, payout and combined seed. Nothing but the inputs
  enters: the combined seed is the digest of the three strings, and the draw recorded at
  row \<open>i\<close> is the draw number \<open>rows * (rows + 1) / 2 + i\<close> of the source built from
  that seed.
\<close>

theorem playRound_deterministic:
  assumes "playRound serverSeed clientSeed nonce dropColumn nrows betCents = Inr r1"
    and "playRound serverSeed clientSeed nonce dropColumn nrows betCents = Inr r2"
  shows "pegMap r1 = pegMap r2 \<and> pegMapHash r1 = pegMapHash r2 \<and> path r1 = path r2
     \<and> map randomValue (path r1) = map randomValue (path r2)
     \<and> map pegBias (path r1) = map pegBias (path r2)
     \<and> map adjustedBias (path r1) = map adjustedBias (path r2)
     \<and> binIndex r1 = binIndex r2 \<and> payoutMultiplier r1 = payoutMultiplier r2
     \<and> payoutCents r1 = payoutCents r2 \<and> combinedSeed r1 = combinedSeed r2
     \<and> combinedSeed r1 = sha256_hex (serverSeed @ '':'' @ clientSeed @ '':'' @ nonce)
     \<and> map randomValue (path r1)
         = map (\<lambda>i. draw (RoundRNG_new (combinedSeed r1)) (nrows * (nrows + 1) div 2 + i)) [0..<ROWS]"
proof -
  have eq: "r1 = r2" using assms by simp
  have n: "ROWS \<le> nrows" using assms(1) by (rule playRound_Inr_rows)
  obtain steps where l: "length steps = ROWS"
    and st: "\<forall>i<ROWS. randomValue (steps ! i)
        = draw (RoundRNG_new (generateCombinedSeed serverSeed clientSeed nonce)) (triangular nrows + i)"
    and r: "path r1 = steps" "combinedSeed r1 = generateCombinedSeed serverSeed clientSeed nonce"
    using playRound_returns[OF n, of serverSeed clientSeed nonce dropColumn betCents] assms(1)
    by auto
  have "map randomValue steps
      = map (\<lambda>i. draw (RoundRNG_new (generateCombinedSeed serverSeed clientSeed nonce))
                 (triangular nrows + i)) [0..<ROWS]"
    using l st by (intro nth_equalityI) simp_all
  then show ?thesis
    using eq r by (simp add: generateCombinedSeed_def triangular_def)
qed

theorem playRound_deterministic_witness:
  "\<exists>r1 r2. playRound tv_serverSeed tv_clientSeed tv_nonce (Num 6) 12 (Num 100) = Inr r1
         \<and> playRound tv_serverSeed tv_clientSeed tv_nonce (Num 6) 12 (Num 100) = Inr r2
         \<and> pegMap r1 = pegMap r2 \<and> path r1 = path r2
         \<and> map randomValue (path r1) = map randomValue (path r2)
         \<and> binIndex r1 = binIndex r2 \<and> payoutCents r1 = payoutCents r2"
proof -
  have "ROWS \<le> 12" by (simp add: ROWS_def)
  from playRound_returns[OF this, of tv_serverSeed tv_clientSeed tv_nonce "Num 6" "Num 100"]
  obtain r where r: "playRound tv_serverSeed tv_clientSeed tv_nonce (Num 6) 12 (Num 100) = Inr r" by blast
  from playRound_deterministic[OF r r] r show ?thesis by blast
qed

text \<open>
  C2, as the code has it. \<open>playRound\<close> checks neither the drop column nor the stake
  and has no \<open>InvalidInput\<close> failure: with the 12 rows of the game it returns a Game
  Result, with a path of 12 steps, for every drop column and every stake, those outside
  their ranges and \<open>NaN\<close> included.
\<close>

theorem playRound_validates_nothing:
  "\<exists>r. playRound serverSeed clientSeed nonce dropColumn 12 betCents = Inr r
       \<and> rows r = 12 \<and> length (path r) = 12"
proof -
  have "ROWS \<le> 12" by (simp add: ROWS_def)
  from playRound_returns[OF this, of serverSeed clientSeed nonce dropColumn betCents]
  obtain steps where l: "length steps = ROWS"
    and p: "playRound serverSeed clientSeed nonce dropColumn 12 betCents =
         Inr \<lparr>pegMap = fst (generatePegMap (RoundRNG_new (generateCombinedSeed serverSeed clientSeed nonce)) 12),
              pegMapHash = createPegMapHash
                (fst (generatePegMap (RoundRNG_new (generateCombinedSeed serverSeed clientSeed nonce)) 12)),
              path = steps,
              binIndex = column (last steps),
              payoutMultiplier = index (getPayoutMultipliers BINS) (column (last steps)),
              payoutCents = Math_round (fmul betCents
                (ToNumber (index (getPayoutMultipliers BINS) (column (last steps))))),
              rows = 12,
              combinedSeed = generateCombinedSeed serverSeed clientSeed nonce\<rparr>"
    by blast
  show ?thesis
    unfolding p using l by (simp add: ROWS_def)
qed

text \<open>
  C2, as stated, fails: drop column 13 is outside \<open>[0, 12]\<close> and the stake 0 is not
  positive, and \<open>playRound\<close> returns a result.
\<close>

theorem playRound_invalid_input_counterexample:
  "\<not> isl (playRound tv_serverSeed tv_clientSeed tv_nonce (Num 13) 12 (Num 0))"
proof -
  have "ROWS \<le> 12" by (simp add: ROWS_def)
  from playRound_returns[OF this, of tv_serverSeed tv_clientSeed tv_nonce "Num 13" "Num 0"]
  show ?thesis by auto
qed

text \<open>
  C3 at two inputs with a positive row count other than 12: with 8 rows \<open>playRound\<close>
  throws a \<open>TypeError\<close>, since \<open>simulateDrop\<close> walks \<open>ROWS = 12\<close> rows of a peg map
  that has 8; with 16 rows the path has 12 steps, not 16.
\<close>

theorem playRound_row_count_ignored:
  "playRound tv_serverSeed tv_clientSeed tv_nonce (Num 6) 8 (Num 100) = Inl TypeError
   \<and> map_sum id (\<lambda>r. length (path r)) (playRound tv_serverSeed tv_clientSeed tv_nonce (Num 6) 16 (Num 100)) = Inr 12"
proof -
  have a: "playRound tv_serverSeed tv_clientSeed tv_nonce (Num 6) 8 (Num 100) = Inl TypeError"
    by (rule playRound_short) (simp add: ROWS_def)
  have "ROWS \<le> 16" by (simp add: ROWS_def)
  from playRound_returns[OF this, of tv_serverSeed tv_clientSeed tv_nonce "Num 6" "Num 100"]
  have "map_sum id (\<lambda>r. length (path r)) (playRound tv_serverSeed tv_clientSeed tv_nonce (Num 6) 16 (Num 100)) = Inr 12"
    by (auto simp: ROWS_def)
  with a show ?thesis ..
qed

text \<open>
  C6, as the code has it. For every row count and every random source, \<open>generatePegMap\<close> returns one row
  for each row index, row \<open>r\<close> holding \<open>r + 1\<close> values. The value at place \<open>p\<close> of row
  \<open>r\<close> is computed from draw number \<open>r * (r + 1) / 2 + p\<close> of the source, as
  \<open>0.5 + (u - 0.5) * 0.2\<close> rounded to six decimals, and lies in \<open>[0.4, 0.6]\<close>. The
  source is left as \<open>rows * (rows + 1) / 2\<close> draws leave it. Every adjusted bias that
  \<open>simulateDrop\<close> records for such a peg map lies in \<open>[0, 1]\<close> when the drop column
  is a number other than \<open>NaN\<close>.
\<close>

theorem generatePegMap_triangular_bounded:
  "length (fst (generatePegMap rng n)) = n
   \<and> (\<forall>r<n. length (fst (generatePegMap rng n) ! r) = r + 1)
   \<and> (\<forall>r<n. \<forall>p\<le>r.
         fst (generatePegMap rng n) ! r ! p =
           fdiv (Math_round (fmul (fadd (lit (1 / 2))
                   (fmul (fsub (draw rng (r * (r + 1) div 2 + p)) (lit (1 / 2))) (lit (1 / 5))))
                 (Num 1000000))) (Num 1000000)
         \<and> (\<exists>b. fst (generatePegMap rng n) ! r ! p = Num b \<and> 2 / 5 \<le> b \<and> b \<le> 3 / 5))
   \<and> snd (generatePegMap rng n) = after (n * (n + 1) div 2) rng
   \<and> callCount (snd (generatePegMap rng n)) = callCount rng + n * (n + 1) div 2
   \<and> (simulateDrop rng1 (fst (generatePegMap rng n)) (Num d) = Inr (steps, rng2)
        \<longrightarrow> (\<forall>st\<in>set steps. \<exists>b. adjustedBias st = Num b \<and> 0 \<le> b \<and> b \<le> 1))"
proof -
  have rw: "\<And>r. r < n \<Longrightarrow> fst (generatePegMap rng n) ! r =
      map (\<lambda>p. leftBias_of (draw rng (triangular r + p))) [0..<r + 1]"
    by (rule generated_pegMap_rows)
  have cell: "\<And>r p. r < n \<Longrightarrow> p \<le> r \<Longrightarrow>
      fst (generatePegMap rng n) ! r ! p = leftBias_of (draw rng (r * (r + 1) div 2 + p))"
    by (simp add: rw triangular_def del: upt_Suc)
  have c3: "\<forall>r<n. \<forall>p\<le>r.
         fst (generatePegMap rng n) ! r ! p =
           fdiv (Math_round (fmul (fadd (lit (1 / 2))
                   (fmul (fsub (draw rng (r * (r + 1) div 2 + p)) (lit (1 / 2))) (lit (1 / 5))))
                 (Num 1000000))) (Num 1000000)
         \<and> (\<exists>b. fst (generatePegMap rng n) ! r ! p = Num b \<and> 2 / 5 \<le> b \<and> b \<le> 3 / 5)"
  proof (intro allI impI)
    fix r p assume "r < n" "p \<le> r"
    from cell[OF this] leftBias_of_draw[of rng "r * (r + 1) div 2 + p"]
    show "fst (generatePegMap rng n) ! r ! p =
           fdiv (Math_round (fmul (fadd (lit (1 / 2))
                   (fmul (fsub (draw rng (r * (r + 1) div 2 + p)) (lit (1 / 2))) (lit (1 / 5))))
                 (Num 1000000))) (Num 1000000)
         \<and> (\<exists>b. fst (generatePegMap rng n) ! r ! p = Num b \<and> 2 / 5 \<le> b \<and> b \<le> 3 / 5)"
      by (simp add: leftBias_of_def Let_def)
  qed
  have c6: "simulateDrop rng1 (fst (generatePegMap rng n)) (Num d) = Inr (steps, rng2)
        \<longrightarrow> (\<forall>st\<in>set steps. \<exists>b. adjustedBias st = Num b \<and> 0 \<le> b \<and> b \<le> 1)"
  proof
    assume s: "simulateDrop rng1 (fst (generatePegMap rng n)) (Num d) = Inr (steps, rng2)"
    have n: "ROWS \<le> n"
      using s simulateDrop_short[of n rng1 rng "Num d"] by (cases "n < ROWS") auto
    from simulateDrop_generated[OF n, of rng1 rng "Num d"] s
    have l: "length steps = ROWS"
      and a0: "\<forall>i<ROWS. \<exists>q. adjustedBias (steps ! i) =
          Math_max (Num 0) (Math_min (Num 1) (fadd (Num q)
            (fmul (fsub (Num d) (Math_floor (fdiv (num_of_nat ROWS) (Num 2)))) (lit (1 / 100)))))"
      by (auto simp del: Math_max.simps Math_min.simps fadd.simps fmul.simps fsub.simps)
    have a: "\<forall>i<ROWS. \<exists>b. adjustedBias (steps ! i) = Num b \<and> 0 \<le> b \<and> b \<le> 1"
    proof (intro allI impI)
      fix i assume "i < ROWS"
      with a0 obtain q where "adjustedBias (steps ! i) =
          Math_max (Num 0) (Math_min (Num 1) (fadd (Num q)
            (fmul (fsub (Num d) (Math_floor (fdiv (num_of_nat ROWS) (Num 2)))) (lit (1 / 100)))))"
        by blast
      then show "\<exists>b. adjustedBias (steps ! i) = Num b \<and> 0 \<le> b \<and> b \<le> 1"
        using adjustedBias_Num[of q d] by (simp only:)
    qed
    show "\<forall>st\<in>set steps. \<exists>b. adjustedBias st = Num b \<and> 0 \<le> b \<and> b \<le> 1"
      using l a by (auto simp: in_set_conv_nth)
  qed
  have c1: "length (fst (generatePegMap rng n)) = n"
    by (rule length_generated_pegMap)
  have c2: "\<forall>r<n. length (fst (generatePegMap rng n) ! r) = r + 1"
    using generated_pegMap_good by blast
  have c4: "snd (generatePegMap rng n) = after (n * (n + 1) div 2) rng"
    by (simp add: snd_generatePegMap triangular_def)
  have c5: "callCount (snd (generatePegMap rng n)) = callCount rng + n * (n + 1) div 2"
    by (simp only: c4 callCount_after)
  show ?thesis by (intro conjI c1 c2 c3 c4 c5 c6)
qed

theorem generatePegMap_triangular_bounded_witness:
  "length (fst (generatePegMap \<lparr>prng = \<lparr>state = 1\<rparr>, callCount = 0\<rparr> 12)) = 12
   \<and> length (fst (generatePegMap \<lparr>prng = \<lparr>state = 1\<rparr>, callCount = 0\<rparr> 12) ! 2) = 3
   \<and> (\<exists>b. fst (generatePegMap \<lparr>prng = \<lparr>state = 1\<rparr>, callCount = 0\<rparr> 12) ! 2 ! 1 = Num b
          \<and> 2 / 5 \<le> b \<and> b \<le> 3 / 5)
   \<and> callCount (snd (generatePegMap \<lparr>prng = \<lparr>state = 1\<rparr>, callCount = 0\<rparr> 12)) = 78
   \<and> (\<exists>steps rng2 b.
         simulateDrop (snd (generatePegMap \<lparr>prng = \<lparr>state = 1\<rparr>, callCount = 0\<rparr> 12))
           (fst (generatePegMap \<lparr>prng = \<lparr>state = 1\<rparr>, callCount = 0\<rparr> 12)) (Num 6) = Inr (steps, rng2)
         \<and> adjustedBias (steps ! 0) = Num b \<and> 0 \<le> b \<and> b \<le> 1)"
proof -
  let ?R = "\<lparr>prng = \<lparr>state = 1\<rparr>, callCount = 0\<rparr>"
  have "ROWS \<le> 12" by (simp add: ROWS_def)
  from simulateDrop_generated[OF this, of "snd (generatePegMap ?R 12)" ?R "Num 6"]
  obtain steps rng2 where s: "simulateDrop (snd (generatePegMap ?R 12)) (fst (generatePegMap ?R 12)) (Num 6)
      = Inr (steps, rng2)" and l: "length steps = ROWS"
    by blast
  have m: "steps ! 0 \<in> set steps" using l by (simp add: ROWS_def)
  note T = generatePegMap_triangular_bounded[of ?R 12 "snd (generatePegMap ?R 12)" 6 steps rng2]
  have w1: "length (fst (generatePegMap ?R 12)) = 12" using T by (rule conjunct1)
  have w2: "length (fst (generatePegMap ?R 12) ! 2) = 3"
    using T[THEN conjunct2, THEN conjunct1, rule_format, of 2] by simp
  have w3: "\<exists>b. fst (generatePegMap ?R 12) ! 2 ! 1 = Num b \<and> 2 / 5 \<le> b \<and> b \<le> 3 / 5"
  proof -
    have "(2::nat) < 12" "(1::nat) \<le> 2" by simp_all
    from T[THEN conjunct2, THEN conjunct2, THEN conjunct1, rule_format, OF this]
    show ?thesis by (rule conjunct2)
  qed
  have w4: "callCount (snd (generatePegMap ?R 12)) = 78"
    using T[THEN conjunct2, THEN conjunct2, THEN conjunct2, THEN conjunct2, THEN conjunct1]
    by simp
  have w5: "\<exists>b. adjustedBias (steps ! 0) = Num b \<and> 0 \<le> b \<and> b \<le> 1"
    using T[THEN conjunct2, THEN conjunct2, THEN conjunct2, THEN conjunct2, THEN conjunct2] s m
    by blast
  from w5 s have w6: "\<exists>steps rng2 b.
         simulateDrop (snd (generatePegMap ?R 12)) (fst (generatePegMap ?R 12)) (Num 6) = Inr (steps, rng2)
         \<and> adjustedBias (steps ! 0) = Num b \<and> 0 \<le> b \<and> b \<le> 1"
    by blast
  show ?thesis by (intro conjI w1 w2 w3 w4 w6)
qed

text \<open>
  C6, as stated, fails for the drop column \<open>NaN\<close>: the adjustment is \<open>NaN\<close>, the clamp
  \<open>Math.max(0, Math.min(1, leftBias + adj))\<close> lets \<open>NaN\<close> through, and the adjusted bias
  recorded at the first row is \<open>NaN\<close>, which is not in \<open>[0, 1]\<close>.
\<close>

theorem simulateDrop_NaN_counterexample:
  "\<not> isl (simulateDrop (snd (generatePegMap \<lparr>prng = \<lparr>state = 1\<rparr>, callCount = 0\<rparr> 12))
            (fst (generatePegMap \<lparr>prng = \<lparr>state = 1\<rparr>, callCount = 0\<rparr> 12)) NaN)
   \<and> adjustedBias (fst (projr (simulateDrop
          (snd (generatePegMap \<lparr>prng = \<lparr>state = 1\<rparr>, callCount = 0\<rparr> 12))
          (fst (generatePegMap \<lparr>prng = \<lparr>state = 1\<rparr>, callCount = 0\<rparr> 12)) NaN)) ! 0) = NaN"
proof -
  let ?R = "\<lparr>prng = \<lparr>state = 1\<rparr>, callCount = 0\<rparr>"
  have "ROWS \<le> 12" by (simp add: ROWS_def)
  from simulateDrop_generated[OF this, of "snd (generatePegMap ?R 12)" ?R NaN]
  obtain steps where s: "simulateDrop (snd (generatePegMap ?R 12)) (fst (generatePegMap ?R 12)) NaN
      = Inr (steps, after ROWS (snd (generatePegMap ?R 12)))"
    and a: "\<forall>i<ROWS. row (steps ! i) = i \<and> column (steps ! i) \<le> i + 1
               \<and> randomValue (steps ! i) = draw (snd (generatePegMap ?R 12)) i
               \<and> (\<exists>q. pegBias (steps ! i) = Some (Num q)
                  \<and> adjustedBias (steps ! i) =
                      Math_max (Num 0) (Math_min (Num 1) (fadd (Num q)
                        (fmul (fsub NaN (Math_floor (fdiv (num_of_nat ROWS) (Num 2)))) (lit (1 / 100))))))"
    by blast
  have "(0::nat) < ROWS" by (simp add: ROWS_def)
  from a[rule_format, OF this] obtain q where "adjustedBias (steps ! 0) =
          Math_max (Num 0) (Math_min (Num 1) (fadd (Num q)
            (fmul (fsub NaN (Math_floor (fdiv (num_of_nat ROWS) (Num 2)))) (lit (1 / 100)))))"
    by blast
  then have "adjustedBias (steps ! 0) = NaN" by (simp only: adjustedBias_NaN)
  then show ?thesis unfolding s by simp
qed

lemma nth_getPayoutMultipliers_spec:
  assumes "bins < 2 ^ 32" "i < bins"
  shows "getPayoutMultipliers bins ! i = multiplier_spec bins i"
proof -
  have "bins < 4294967296" using assms(1) by simp
  then have "bins < 2 ^ 53" by simp
  from multiplier_of_spec[OF this assms(2)] show ?thesis
    by (simp add: nth_getPayoutMultipliers[OF assms(2)])
qed

lemma lt_center_off_center:
  assumes "i \<noteq> bins div 2"
  shows "lt (multiplier_spec bins (bins div 2)) (multiplier_spec bins i)"
proof -
  obtain m where m: "multiplier_spec bins i = Num m" "3602879701896397 / 4503599627370496 \<le> m"
    using multiplier_spec_off_center[OF assms] by blast
  have "(1 / 2 :: rat) < 3602879701896397 / 4503599627370496" by simp
  with m(2) have "1 / 2 < m" by linarith
  then show ?thesis by (simp add: multiplier_spec_center m(1))
qed

text \<open>
  C5, as the code has it. For a bin count below \<open>2^32\<close> (an array holds no more) the
  table has one entry for each bin, the entry of bin \<open>i\<close> being
  \<open>round_2dp(0.5 + |i - floor(bins / 2)| * 0.3)\<close>. The table is symmetric,
  \<open>multiplier(i) = multiplier(bins - 1 - i)\<close>, when the bin count is odd, and from
  three bins on both edge multipliers strictly exceed the multiplier of the centre bin
  \<open>floor(bins / 2)\<close>.
\<close>

theorem getPayoutMultipliers_symmetric_odd:
  assumes "bins < 2 ^ 32"
  shows "length (getPayoutMultipliers bins) = bins
     \<and> (\<forall>i<bins. getPayoutMultipliers bins ! i =
           round_2dp (fadd (lit (1 / 2))
             (fmul (num_of_nat (nat \<bar>int i - int (bins div 2)\<bar>)) (lit (3 / 10)))))
     \<and> (odd bins \<longrightarrow>
           (\<forall>i<bins. getPayoutMultipliers bins ! i = getPayoutMultipliers bins ! (bins - 1 - i)))
     \<and> (3 \<le> bins \<longrightarrow>
           lt (getPayoutMultipliers bins ! (bins div 2)) (getPayoutMultipliers bins ! 0)
         \<and> lt (getPayoutMultipliers bins ! (bins div 2)) (getPayoutMultipliers bins ! (bins - 1)))"
proof -
  have c1: "length (getPayoutMultipliers bins) = bins" by (rule length_getPayoutMultipliers)
  have c2: "\<forall>i<bins. getPayoutMultipliers bins ! i =
           round_2dp (fadd (lit (1 / 2))
             (fmul (num_of_nat (nat \<bar>int i - int (bins div 2)\<bar>)) (lit (3 / 10))))"
    using nth_getPayoutMultipliers_spec[OF assms] by (simp add: multiplier_spec_def)
  have c3: "odd bins \<longrightarrow>
           (\<forall>i<bins. getPayoutMultipliers bins ! i = getPayoutMultipliers bins ! (bins - 1 - i))"
  proof (intro impI allI)
    fix i assume o: "odd bins" and i: "i < bins"
    then have j: "bins - 1 - i < bins" by simp
    show "getPayoutMultipliers bins ! i = getPayoutMultipliers bins ! (bins - 1 - i)"
      by (simp only: nth_getPayoutMultipliers_spec[OF assms i]
          nth_getPayoutMultipliers_spec[OF assms j] multiplier_spec_mirror[OF o i])
  qed
  have c4: "3 \<le> bins \<longrightarrow>
           lt (getPayoutMultipliers bins ! (bins div 2)) (getPayoutMultipliers bins ! 0)
         \<and> lt (getPayoutMultipliers bins ! (bins div 2)) (getPayoutMultipliers bins ! (bins - 1))"
  proof
    assume b: "3 \<le> bins"
    then have i0: "0 < bins" and ic: "bins div 2 < bins" and il: "bins - 1 < bins" by simp_all
    have n0: "0 \<noteq> bins div 2" using b by simp
    have nl: "bins - 1 \<noteq> bins div 2" using b by linarith
    show "lt (getPayoutMultipliers bins ! (bins div 2)) (getPayoutMultipliers bins ! 0)
         \<and> lt (getPayoutMultipliers bins ! (bins div 2)) (getPayoutMultipliers bins ! (bins - 1))"
      by (simp only: nth_getPayoutMultipliers_spec[OF assms i0]
          nth_getPayoutMultipliers_spec[OF assms ic] nth_getPayoutMultipliers_spec[OF assms il]
          lt_center_off_center[OF n0] lt_center_off_center[OF nl] simp_thms)
  qed
  show ?thesis by (intro conjI c1 c2 c3 c4)
qed

theorem getPayoutMultipliers_symmetric_odd_witness:
  "length (getPayoutMultipliers 13) = 13
   \<and> getPayoutMultipliers 13 ! 0 = getPayoutMultipliers 13 ! 12
   \<and> getPayoutMultipliers 13 ! 5 = getPayoutMultipliers 13 ! 7
   \<and> lt (getPayoutMultipliers 13 ! 6) (getPayoutMultipliers 13 ! 0)
   \<and> lt (getPayoutMultipliers 13 ! 6) (getPayoutMultipliers 13 ! 12)"
proof -
  have b: "(13::nat) < 2 ^ 32" by simp
  note T = getPayoutMultipliers_symmetric_odd[OF b]
  have o: "odd (13::nat)" by simp
  have s: "\<forall>i<13. getPayoutMultipliers 13 ! i = getPayoutMultipliers 13 ! (13 - 1 - i)"
    using T[THEN conjunct2, THEN conjunct2, THEN conjunct1] o by (rule mp)
  have e: "lt (getPayoutMultipliers 13 ! (13 div 2)) (getPayoutMultipliers 13 ! 0)
         \<and> lt (getPayoutMultipliers 13 ! (13 div 2)) (getPayoutMultipliers 13 ! (13 - 1))"
    using T[THEN conjunct2, THEN conjunct2, THEN conjunct2] by simp
  have w1: "length (getPayoutMultipliers 13) = 13" using T by (rule conjunct1)
  have w2: "getPayoutMultipliers 13 ! 0 = getPayoutMultipliers 13 ! 12" using s[rule_format, of 0] by simp
  have w3: "getPayoutMultipliers 13 ! 5 = getPayoutMultipliers 13 ! 7" using s[rule_format, of 5] by simp
  have w4: "lt (getPayoutMultipliers 13 ! 6) (getPayoutMultipliers 13 ! 0)" using e by simp
  have w5: "lt (getPayoutMultipliers 13 ! 6) (getPayoutMultipliers 13 ! 12)" using e by simp
  show ?thesis by (intro conjI w1 w2 w3 w4 w5)
qed

text \<open>
  C5, as stated, fails for two bins: the centre is bin 1, so bin 0 and its mirror, bin
  1, differ, and the edge bin 1 does not exceed the centre, being the centre.
\<close>

theorem getPayoutMultipliers_even_counterexample:
  "getPayoutMultipliers 2 ! 0 \<noteq> getPayoutMultipliers 2 ! (2 - 1 - 0)
   \<and> \<not> lt (getPayoutMultipliers 2 ! (2 div 2)) (getPayoutMultipliers 2 ! (2 - 1))"
proof -
  have b: "(2::nat) < 2 ^ 32" by simp
  have a0: "getPayoutMultipliers 2 ! 0 = multiplier_spec 2 0"
    by (rule nth_getPayoutMultipliers_spec[OF b]) simp
  have a1: "getPayoutMultipliers 2 ! 1 = multiplier_spec 2 (2 div 2)"
    using nth_getPayoutMultipliers_spec[OF b, of 1] by simp
  have "lt (multiplier_spec 2 (2 div 2)) (multiplier_spec 2 0)"
    by (rule lt_center_off_center) simp
  then have l: "lt (getPayoutMultipliers 2 ! 1) (getPayoutMultipliers 2 ! 0)"
    by (simp only: a0 a1)
  have c: "getPayoutMultipliers 2 ! 1 = Num (1 / 2)"
    by (simp only: a1 multiplier_spec_center)
  have nl: "\<not> lt (getPayoutMultipliers 2 ! 1) (getPayoutMultipliers 2 ! 1)"
    unfolding c by simp
  have "getPayoutMultipliers 2 ! 0 \<noteq> getPayoutMultipliers 2 ! 1"
  proof
    assume "getPayoutMultipliers 2 ! 0 = getPayoutMultipliers 2 ! 1"
    with l have "lt (getPayoutMultipliers 2 ! 1) (getPayoutMultipliers 2 ! 1)" by simp
    with nl show False ..
  qed
  with nl show ?thesis by simp
qed

lemma draws_outputs: "draws n rng = XORShift32_outputs n (prng rng)"
proof (induction n arbitrary: rng)
  case 0
  show ?case by simp
next
  case (Suc n)
  show ?case by (simp add: Suc.IH RoundRNG_next_def split: prod.split)
qed

lemma hexDigitValue_zero: "hexDigitValue CHR ''0'' = Some 0"
  by (simp add: hexDigitValue_def)

lemma parseInt16_NaN:
  assumes "hexDigitValue c = None" "\<not> isWhiteSpace c" "c \<noteq> CHR ''-''" "c \<noteq> CHR ''+''"
  shows "parseInt16 (c # cs) = NaN"
proof -
  have z: "c \<noteq> CHR ''0''" using assms(1) hexDigitValue_zero by auto
  have p: "stripPrefix (c # cs) = c # cs"
    using z by (cases cs) (simp_all add: stripPrefix_def)
  show ?thesis
    using assms by (simp add: parseInt16_def stripSign_def p)
qed

text \<open>
  C10, as the code has it. For every combined seed whose first character is not a
  hexadecimal digit, not white space and not a sign, \<open>extractPRNGSeed\<close> returns
  \<open>NaN\<close>; so does the empty string. The constructor of \<open>XORShift32\<close> turns \<open>NaN\<close>
  into 0 and then into the state 1, so all these seeds give the same random source, the
  one seeded with 1, and the same stream of draws, and none gives an error.
\<close>

theorem extractPRNGSeed_non_hex:
  assumes "hexDigitValue c = None" "\<not> isWhiteSpace c" "c \<noteq> CHR ''-''" "c \<noteq> CHR ''+''"
  shows "extractPRNGSeed (c # cs) = NaN \<and> extractPRNGSeed [] = NaN
     \<and> ToUint32 NaN = 0
     \<and> RoundRNG_new (c # cs) = \<lparr>prng = \<lparr>state = 1\<rparr>, callCount = 0\<rparr>
     \<and> RoundRNG_new (c # cs) = \<lparr>prng = XORShift32_new (Num 1), callCount = 0\<rparr>
     \<and> draws n (RoundRNG_new (c # cs)) = XORShift32_outputs n (XORShift32_new (Num 1))"
proof -
  have e: "extractPRNGSeed (c # cs) = NaN"
    using parseInt16_NaN[OF assms] by (simp add: extractPRNGSeed_def)
  have e0: "extractPRNGSeed [] = NaN"
    by (simp add: extractPRNGSeed_def parseInt16_def stripSign_def stripPrefix_def)
  have u: "ToUint32 NaN = 0" by (simp add: ToUint32_def)
  have one: "XORShift32_new (Num 1) = \<lparr>state = 1\<rparr>"
    by (simp add: XORShift32_new_def ToUint32_def)
  have r: "RoundRNG_new (c # cs) = \<lparr>prng = \<lparr>state = 1\<rparr>, callCount = 0\<rparr>"
    by (simp add: RoundRNG_new_def e XORShift32_new_def u)
  show ?thesis
    by (simp add: e e0 u r one draws_outputs)
qed

theorem extractPRNGSeed_non_hex_witness:
  "extractPRNGSeed ''test_seed_columns'' = NaN
   \<and> RoundRNG_new ''test_seed_columns'' = \<lparr>prng = \<lparr>state = 1\<rparr>, callCount = 0\<rparr>
   \<and> RoundRNG_new ''test_seed_columns'' = RoundRNG_new ''nonce123''"
proof -
  have t: "hexDigitValue CHR ''t'' = None" "\<not> isWhiteSpace CHR ''t''"
      "CHR ''t'' \<noteq> CHR ''-''" "CHR ''t'' \<noteq> CHR ''+''"
    by (simp_all add: hexDigitValue_def isWhiteSpace_def)
  have n: "hexDigitValue CHR ''n'' = None" "\<not> isWhiteSpace CHR ''n''"
      "CHR ''n'' \<noteq> CHR ''-''" "CHR ''n'' \<noteq> CHR ''+''"
    by (simp_all add: hexDigitValue_def isWhiteSpace_def)
  from extractPRNGSeed_non_hex[OF t, of "''est_seed_columns''" 0]
    extractPRNGSeed_non_hex[OF n, of "''once123''" 0]
  show ?thesis by simp
qed

text \<open>
  C10, as stated, fails for a seed that starts with a sign: the first character of
  \<open>-1\<close> is no hexadecimal digit, \<open>parseInt\<close> reads it as \<open>-1\<close>, and the
  generator starts from \<open>4294967295\<close>, not from 1.
\<close>

theorem extractPRNGSeed_sign_counterexample:
  "hexDigitValue CHR ''-'' = None
   \<and> extractPRNGSeed ''-1'' = Num (- 1)
   \<and> RoundRNG_new ''-1'' = \<lparr>prng = \<lparr>state = 4294967295\<rparr>, callCount = 0\<rparr>"
  by (simp add: hexDigitValue_def extractPRNGSeed_def parseInt16_def stripSign_def stripPrefix_def
      isWhiteSpace_def num_of_int_def fl_minus fl_one RoundRNG_new_def XORShift32_new_def ToUint32_def)

lemma rotr_eval: "rotr n x = drop_bit n x OR (push_bit (32 - n) x AND 0xffffffff)"
  unfolding rotr_def by (simp only: mask32)

lemma add32_eval: "add32 a b = (a + b) AND 0xffffffff"
  unfolding add32_def by (simp only: mask32)

lemma Ch_eval: "Ch x y z = z XOR (x AND (y XOR z))"
  unfolding Ch_def by (rule bit_word_eqI) (auto simp: bit_simps)

lemma replicate_numeral_eval: "replicate (numeral k) x = x # replicate (pred_numeral k) x"
  by (simp add: numeral_eq_Suc)

lemma blocks_eval:
  "blocks s (w0 # w1 # w2 # w3 # w4 # w5 # w6 # w7 # w8 # w9 # w10 # w11 # w12 # w13 # w14 # w15 # ws) =
     blocks (compress s [w0, w1, w2, w3, w4, w5, w6, w7, w8, w9, w10, w11, w12, w13, w14, w15]) ws"
  "blocks s [] = s"
  by (simp_all add: blocks.simps)

lemmas sha_eval = K256_def step_def H0_def shift_in_def bsig0_def bsig1_def Ch_eval Maj_def
  rotr_eval advance_def ssig0_def ssig1_def add32_eval compress_def
  utf8_def pad_def replicate_numeral_eval sha256_def blocks_eval
  sha256_hex_def hex_of_u32_def hex_of_byte_def hexdigit_def

lemma generateCombinedSeed_tv:
  "generateCombinedSeed tv_serverSeed tv_clientSeed tv_nonce = tv_combinedSeed"
  by (simp add: generateCombinedSeed_def tv_serverSeed_def tv_clientSeed_def tv_nonce_def
      tv_combinedSeed_def sha_eval)

lemma tv_RoundRNG_new:
  "RoundRNG_new tv_combinedSeed = \<lparr>prng = \<lparr>state = 3789414263\<rparr>, callCount = 0\<rparr>"
  by (simp add: tv_combinedSeed_def RoundRNG_new_def extractPRNGSeed_def parseInt16_def stripSign_def
      stripPrefix_def isWhiteSpace_def hexDigitValue_def num_of_int_def XORShift32_new_def
      ToUint32_def fl_eval)

lemma tv_states:
  "xorshift32_states 90 3789414263 =
     [475094958, 3274968060, 188674553, 1966527577, 1477038951, 784681205, 2091829272,
     270451470, 3348332817, 1099867113, 730524432, 2884820196, 4255825587, 3857578541,
     262576217, 1226250223, 3602833754, 1478567440, 3766490177, 2734747109, 1765688795,
     2435569209, 2524772911, 773507283, 2534603059, 3467335689, 284127580, 643123710,
     1647511339, 1478143552, 3079126409, 1189154770, 2222258111, 1256211774, 179513277,
     2798822271, 2769976833, 2980005612, 1897898989, 690645724, 3930768484, 3926244839,
     3935769691, 194149109, 3713264371, 2713093205, 1455392171, 1734108014, 2366310454,
     1840937008, 1966163118, 3912361468, 1682958427, 2984008665, 1850456010, 250448371,
     1168471386, 2328255357, 1955769993, 154164008, 1224612418, 4252363961, 1556051400,
     4072912299, 178546064, 1154676219, 1474199917, 2040475668, 1814168730, 3130722946,
     2729429895, 541051752, 4077281249, 666243100, 1393146374, 3982511202, 2036579476,
     3503703660, 459441729, 1056633108, 2077257336, 3052796823, 1516553300, 2670362947,
     793927298, 4106728611, 1210672330, 4071802066, 4013091078, 4032590319]"
  by (simp add: xorshift32_states_numeral xorshift32_eval)

lemma length_xorshift32_states: "length (xorshift32_states n w) = n"
  by (induction n arbitrary: w) simp_all

lemma draw_states:
  assumes "k < n"
  shows "draw rng k =
    Num (of_int (uint (xorshift32_states n (word_of_int (state (prng rng))) ! k)) / 4294967296)"
proof -
  have "draw rng k = draws n rng ! k"
    using assms by (simp add: draws_eq_map)
  also have "\<dots> = Num (of_int (uint (xorshift32_states n (word_of_int (state (prng rng))) ! k)) / 4294967296)"
    using assms by (simp add: draws_outputs XORShift32_outputs_states length_xorshift32_states)
  finally show ?thesis .
qed

lemma tv_draw_0: "draw (RoundRNG_new tv_combinedSeed) 0 = Num (237547479 / 2147483648)"
  using draw_states[of 0 90 "RoundRNG_new tv_combinedSeed"]
  by (simp add: tv_RoundRNG_new tv_states)

lemma tv_draw_1: "draw (RoundRNG_new tv_combinedSeed) 1 = Num (818742015 / 1073741824)"
  using draw_states[of 1 90 "RoundRNG_new tv_combinedSeed"]
  by (simp add: tv_RoundRNG_new tv_states)

lemma tv_draw_2: "draw (RoundRNG_new tv_combinedSeed) 2 = Num (188674553 / 4294967296)"
  using draw_states[of 2 90 "RoundRNG_new tv_combinedSeed"]
  by (simp add: tv_RoundRNG_new tv_states)

lemma tv_draw_3: "draw (RoundRNG_new tv_combinedSeed) 3 = Num (1966527577 / 4294967296)"
  using draw_states[of 3 90 "RoundRNG_new tv_combinedSeed"]
  by (simp add: tv_RoundRNG_new tv_states)

lemma tv_draw_4: "draw (RoundRNG_new tv_combinedSeed) 4 = Num (1477038951 / 4294967296)"
  using draw_states[of 4 90 "RoundRNG_new tv_combinedSeed"]
  by (simp add: tv_RoundRNG_new tv_states)

lemma tv_draw_5: "draw (RoundRNG_new tv_combinedSeed) 5 = Num (784681205 / 4294967296)"
  using draw_states[of 5 90 "RoundRNG_new tv_combinedSeed"]
  by (simp add: tv_RoundRNG_new tv_states)

lemma tv_draw_6: "draw (RoundRNG_new tv_combinedSeed) 6 = Num (261478659 / 536870912)"
  using draw_states[of 6 90 "RoundRNG_new tv_combinedSeed"]
  by (simp add: tv_RoundRNG_new tv_states)

lemma tv_draw_11: "draw (RoundRNG_new tv_combinedSeed) 11 = Num (721205049 / 1073741824)"
  using draw_states[of 11 90 "RoundRNG_new tv_combinedSeed"]
  by (simp add: tv_RoundRNG_new tv_states)

lemma tv_draw_16: "draw (RoundRNG_new tv_combinedSeed) 16 = Num (1801416877 / 2147483648)"
  using draw_states[of 16 90 "RoundRNG_new tv_combinedSeed"]
  by (simp add: tv_RoundRNG_new tv_states)

lemma tv_draw_23: "draw (RoundRNG_new tv_combinedSeed) 23 = Num (773507283 / 4294967296)"
  using draw_states[of 23 90 "RoundRNG_new tv_combinedSeed"]
  by (simp add: tv_RoundRNG_new tv_states)

lemma tv_draw_30: "draw (RoundRNG_new tv_combinedSeed) 30 = Num (3079126409 / 4294967296)"
  using draw_states[of 30 90 "RoundRNG_new tv_combinedSeed"]
  by (simp add: tv_RoundRNG_new tv_states)

lemma tv_draw_39: "draw (RoundRNG_new tv_combinedSeed) 39 = Num (172661431 / 1073741824)"
  using draw_states[of 39 90 "RoundRNG_new tv_combinedSeed"]
  by (simp add: tv_RoundRNG_new tv_states)

lemma tv_draw_48: "draw (RoundRNG_new tv_combinedSeed) 48 = Num (1183155227 / 2147483648)"
  using draw_states[of 48 90 "RoundRNG_new tv_combinedSeed"]
  by (simp add: tv_RoundRNG_new tv_states)

lemma tv_draw_59: "draw (RoundRNG_new tv_combinedSeed) 59 = Num (19270501 / 536870912)"
  using draw_states[of 59 90 "RoundRNG_new tv_combinedSeed"]
  by (simp add: tv_RoundRNG_new tv_states)

lemma tv_draw_71: "draw (RoundRNG_new tv_combinedSeed) 71 = Num (67631469 / 536870912)"
  using draw_states[of 71 90 "RoundRNG_new tv_combinedSeed"]
  by (simp add: tv_RoundRNG_new tv_states)

lemma tv_draw_78: "draw (RoundRNG_new tv_combinedSeed) 78 = Num (459441729 / 4294967296)"
  using draw_states[of 78 90 "RoundRNG_new tv_combinedSeed"]
  by (simp add: tv_RoundRNG_new tv_states)

lemma tv_draw_79: "draw (RoundRNG_new tv_combinedSeed) 79 = Num (264158277 / 1073741824)"
  using draw_states[of 79 90 "RoundRNG_new tv_combinedSeed"]
  by (simp add: tv_RoundRNG_new tv_states)

lemma tv_draw_80: "draw (RoundRNG_new tv_combinedSeed) 80 = Num (259657167 / 536870912)"
  using draw_states[of 80 90 "RoundRNG_new tv_combinedSeed"]
  by (simp add: tv_RoundRNG_new tv_states)

lemma tv_draw_81: "draw (RoundRNG_new tv_combinedSeed) 81 = Num (3052796823 / 4294967296)"
  using draw_states[of 81 90 "RoundRNG_new tv_combinedSeed"]
  by (simp add: tv_RoundRNG_new tv_states)

lemma tv_draw_82: "draw (RoundRNG_new tv_combinedSeed) 82 = Num (379138325 / 1073741824)"
  using draw_states[of 82 90 "RoundRNG_new tv_combinedSeed"]
  by (simp add: tv_RoundRNG_new tv_states)

lemma tv_draw_83: "draw (RoundRNG_new tv_combinedSeed) 83 = Num (2670362947 / 4294967296)"
  using draw_states[of 83 90 "RoundRNG_new tv_combinedSeed"]
  by (simp add: tv_RoundRNG_new tv_states)

lemma tv_draw_84: "draw (RoundRNG_new tv_combinedSeed) 84 = Num (396963649 / 2147483648)"
  using draw_states[of 84 90 "RoundRNG_new tv_combinedSeed"]
  by (simp add: tv_RoundRNG_new tv_states)

lemma tv_draw_85: "draw (RoundRNG_new tv_combinedSeed) 85 = Num (4106728611 / 4294967296)"
  using draw_states[of 85 90 "RoundRNG_new tv_combinedSeed"]
  by (simp add: tv_RoundRNG_new tv_states)

lemma tv_draw_86: "draw (RoundRNG_new tv_combinedSeed) 86 = Num (605336165 / 2147483648)"
  using draw_states[of 86 90 "RoundRNG_new tv_combinedSeed"]
  by (simp add: tv_RoundRNG_new tv_states)

lemma tv_draw_87: "draw (RoundRNG_new tv_combinedSeed) 87 = Num (2035901033 / 2147483648)"
  using draw_states[of 87 90 "RoundRNG_new tv_combinedSeed"]
  by (simp add: tv_RoundRNG_new tv_states)

lemma tv_draw_88: "draw (RoundRNG_new tv_combinedSeed) 88 = Num (2006545539 / 2147483648)"
  using draw_states[of 88 90 "RoundRNG_new tv_combinedSeed"]
  by (simp add: tv_RoundRNG_new tv_states)

lemma tv_draw_89: "draw (RoundRNG_new tv_combinedSeed) 89 = Num (4032590319 / 4294967296)"
  using draw_states[of 89 90 "RoundRNG_new tv_combinedSeed"]
  by (simp add: tv_RoundRNG_new tv_states)

lemma tv_bias_0: "leftBias_of (Num (237547479 / 2147483648)) = Num (475268246376129 / 1125899906842624)"
  by (simp add: leftBias_of_Num fl_eval)

lemma tv_bias_1: "leftBias_of (Num (818742015 / 1073741824)) = Num (2488252304921081 / 4503599627370496)"
  by (simp add: leftBias_of_Num fl_eval)

lemma tv_bias_2: "leftBias_of (Num (188674553 / 4294967296)) = Num (3682016954548551 / 9007199254740992)"
  by (simp add: leftBias_of_Num fl_eval)

lemma tv_bias_3: "leftBias_of (Num (1966527577 / 4294967296)) = Num (8855409932900097 / 18014398509481984)"
  by (simp add: leftBias_of_Num fl_eval)

lemma tv_bias_4: "leftBias_of (Num (1477038951 / 4294967296)) = Num (2111197433318741 / 4503599627370496)"
  by (simp add: leftBias_of_Num fl_eval)

lemma tv_bias_5: "leftBias_of (Num (784681205 / 4294967296)) = Num (7864005525329265 / 18014398509481984)"
  by (simp add: leftBias_of_Num fl_eval)

lemma tv_bias_6: "leftBias_of (Num (261478659 / 536870912)) = Num (8960505933804415 / 18014398509481984)"
  by (simp add: leftBias_of_Num fl_eval)

lemma tv_bias_11: "leftBias_of (Num (721205049 / 1073741824)) = Num (1203215453445507 / 2251799813685248)"
  by (simp add: leftBias_of_Num fl_eval)

lemma tv_bias_16: "leftBias_of (Num (1801416877 / 2147483648)) = Num (5114017520864293 / 9007199254740992)"
  by (simp add: leftBias_of_Num fl_eval)

lemma tv_bias_23: "leftBias_of (Num (773507283 / 4294967296)) = Num (7854620023705825 / 18014398509481984)"
  by (simp add: leftBias_of_Num fl_eval)

lemma tv_bias_30: "leftBias_of (Num (3079126409 / 4294967296)) = Num (1223589738159731 / 2251799813685248)"
  by (simp add: leftBias_of_Num fl_eval)

lemma tv_bias_39: "leftBias_of (Num (172661431 / 1073741824)) = Num (1946280118564061 / 4503599627370496)"
  by (simp add: leftBias_of_Num fl_eval)

lemma tv_bias_48: "leftBias_of (Num (1183155227 / 2147483648)) = Num (4595382987776307 / 9007199254740992)"
  by (simp add: leftBias_of_Num fl_eval)

lemma tv_bias_59: "leftBias_of (Num (19270501 / 536870912)) = Num (7335084770692365 / 18014398509481984)"
  by (simp add: leftBias_of_Num fl_eval)

lemma tv_bias_71: "leftBias_of (Num (67631469 / 536870912)) = Num (957454021779899 / 2251799813685248)"
  by (simp add: leftBias_of_Num fl_eval)

lemma generated_peg:
  assumes "r < nrows" "p \<le> r" "triangular r + p = k"
  shows "fst (generatePegMap rng nrows) ! r ! p = leftBias_of (draw rng k)"
  using assms by (simp add: generated_pegMap_rows del: upt_Suc)

lemma tv_peg_0_0: "fst (generatePegMap (RoundRNG_new tv_combinedSeed) 12) ! 0 ! 0 = Num (475268246376129 / 1125899906842624)"
proof -
  have "fst (generatePegMap (RoundRNG_new tv_combinedSeed) 12) ! 0 ! 0 = leftBias_of (draw (RoundRNG_new tv_combinedSeed) 0)"
    by (rule generated_peg) (simp_all add: triangular_def)
  then show ?thesis by (simp only: tv_draw_0 tv_bias_0)
qed

lemma tv_peg_1_0: "fst (generatePegMap (RoundRNG_new tv_combinedSeed) 12) ! 1 ! 0 = Num (2488252304921081 / 4503599627370496)"
proof -
  have "fst (generatePegMap (RoundRNG_new tv_combinedSeed) 12) ! 1 ! 0 = leftBias_of (draw (RoundRNG_new tv_combinedSeed) 1)"
    by (rule generated_peg) (simp_all add: triangular_def)
  then show ?thesis by (simp only: tv_draw_1 tv_bias_1)
qed

lemma tv_peg_1_1: "fst (generatePegMap (RoundRNG_new tv_combinedSeed) 12) ! 1 ! 1 = Num (3682016954548551 / 9007199254740992)"
proof -
  have "fst (generatePegMap (RoundRNG_new tv_combinedSeed) 12) ! 1 ! 1 = leftBias_of (draw (RoundRNG_new tv_combinedSeed) 2)"
    by (rule generated_peg) (simp_all add: triangular_def)
  then show ?thesis by (simp only: tv_draw_2 tv_bias_2)
qed

lemma tv_peg_2_0: "fst (generatePegMap (RoundRNG_new tv_combinedSeed) 12) ! 2 ! 0 = Num (8855409932900097 / 18014398509481984)"
proof -
  have "fst (generatePegMap (RoundRNG_new tv_combinedSeed) 12) ! 2 ! 0 = leftBias_of (draw (RoundRNG_new tv_combinedSeed) 3)"
    by (rule generated_peg) (simp_all add: triangular_def)
  then show ?thesis by (simp only: tv_draw_3 tv_bias_3)
qed

lemma tv_peg_2_1: "fst (generatePegMap (RoundRNG_new tv_combinedSeed) 12) ! 2 ! 1 = Num (2111197433318741 / 4503599627370496)"
proof -
  have "fst (generatePegMap (RoundRNG_new tv_combinedSeed) 12) ! 2 ! 1 = leftBias_of (draw (RoundRNG_new tv_combinedSeed) 4)"
    by (rule generated_peg) (simp_all add: triangular_def)
  then show ?thesis by (simp only: tv_draw_4 tv_bias_4)
qed

lemma tv_peg_2_2: "fst (generatePegMap (RoundRNG_new tv_combinedSeed) 12) ! 2 ! 2 = Num (7864005525329265 / 18014398509481984)"
proof -
  have "fst (generatePegMap (RoundRNG_new tv_combinedSeed) 12) ! 2 ! 2 = leftBias_of (draw (RoundRNG_new tv_combinedSeed) 5)"
    by (rule generated_peg) (simp_all add: triangular_def)
  then show ?thesis by (simp only: tv_draw_5 tv_bias_5)
qed

lemma tv_peg_3_0: "fst (generatePegMap (RoundRNG_new tv_combinedSeed) 12) ! 3 ! 0 = Num (8960505933804415 / 18014398509481984)"
proof -
  have "fst (generatePegMap (RoundRNG_new tv_combinedSeed) 12) ! 3 ! 0 = leftBias_of (draw (RoundRNG_new tv_combinedSeed) 6)"
    by (rule generated_peg) (simp_all add: triangular_def)
  then show ?thesis by (simp only: tv_draw_6 tv_bias_6)
qed

lemma tv_peg_4_1: "fst (generatePegMap (RoundRNG_new tv_combinedSeed) 12) ! 4 ! 1 = Num (1203215453445507 / 2251799813685248)"
proof -
  have "fst (generatePegMap (RoundRNG_new tv_combinedSeed) 12) ! 4 ! 1 = leftBias_of (draw (RoundRNG_new tv_combinedSeed) 11)"
    by (rule generated_peg) (simp_all add: triangular_def)
  then show ?thesis by (simp only: tv_draw_11 tv_bias_11)
qed

lemma tv_peg_5_1: "fst (generatePegMap (RoundRNG_new tv_combinedSeed) 12) ! 5 ! 1 = Num (5114017520864293 / 9007199254740992)"
proof -
  have "fst (generatePegMap (RoundRNG_new tv_combinedSeed) 12) ! 5 ! 1 = leftBias_of (draw (RoundRNG_new tv_combinedSeed) 16)"
    by (rule generated_peg) (simp_all add: triangular_def)
  then show ?thesis by (simp only: tv_draw_16 tv_bias_16)
qed

lemma tv_peg_6_2: "fst (generatePegMap (RoundRNG_new tv_combinedSeed) 12) ! 6 ! 2 = Num (7854620023705825 / 18014398509481984)"
proof -
  have "fst (generatePegMap (RoundRNG_new tv_combinedSeed) 12) ! 6 ! 2 = leftBias_of (draw (RoundRNG_new tv_combinedSeed) 23)"
    by (rule generated_peg) (simp_all add: triangular_def)
  then show ?thesis by (simp only: tv_draw_23 tv_bias_23)
qed

lemma tv_peg_7_2: "fst (generatePegMap (RoundRNG_new tv_combinedSeed) 12) ! 7 ! 2 = Num (1223589738159731 / 2251799813685248)"
proof -
  have "fst (generatePegMap (RoundRNG_new tv_combinedSeed) 12) ! 7 ! 2 = leftBias_of (draw (RoundRNG_new tv_combinedSeed) 30)"
    by (rule generated_peg) (simp_all add: triangular_def)
  then show ?thesis by (simp only: tv_draw_30 tv_bias_30)
qed

lemma tv_peg_8_3: "fst (generatePegMap (RoundRNG_new tv_combinedSeed) 12) ! 8 ! 3 = Num (1946280118564061 / 4503599627370496)"
proof -
  have "fst (generatePegMap (RoundRNG_new tv_combinedSeed) 12) ! 8 ! 3 = leftBias_of (draw (RoundRNG_new tv_combinedSeed) 39)"
    by (rule generated_peg) (simp_all add: triangular_def)
  then show ?thesis by (simp only: tv_draw_39 tv_bias_39)
qed

lemma tv_peg_9_3: "fst (generatePegMap (RoundRNG_new tv_combinedSeed) 12) ! 9 ! 3 = Num (4595382987776307 / 9007199254740992)"
proof -
  have "fst (generatePegMap (RoundRNG_new tv_combinedSeed) 12) ! 9 ! 3 = leftBias_of (draw (RoundRNG_new tv_combinedSeed) 48)"
    by (rule generated_peg) (simp_all add: triangular_def)
  then show ?thesis by (simp only: tv_draw_48 tv_bias_48)
qed

lemma tv_peg_10_4: "fst (generatePegMap (RoundRNG_new tv_combinedSeed) 12) ! 10 ! 4 = Num (7335084770692365 / 18014398509481984)"
proof -
  have "fst (generatePegMap (RoundRNG_new tv_combinedSeed) 12) ! 10 ! 4 = leftBias_of (draw (RoundRNG_new tv_combinedSeed) 59)"
    by (rule generated_peg) (simp_all add: triangular_def)
  then show ?thesis by (simp only: tv_draw_59 tv_bias_59)
qed

lemma tv_peg_11_5: "fst (generatePegMap (RoundRNG_new tv_combinedSeed) 12) ! 11 ! 5 = Num (957454021779899 / 2251799813685248)"
proof -
  have "fst (generatePegMap (RoundRNG_new tv_combinedSeed) 12) ! 11 ! 5 = leftBias_of (draw (RoundRNG_new tv_combinedSeed) 71)"
    by (rule generated_peg) (simp_all add: triangular_def)
  then show ?thesis by (simp only: tv_draw_71 tv_bias_71)
qed

lemma simulateDrop_loop_Left:
  assumes "r < ROWS" "r < length pm" "pos < length (pm ! r)" "pos \<le> r"
    and "pm ! r ! pos = Num q" and "draw rng0 r = Num u" and "u < max 0 (min 1 (fl (q + a)))"
    and r': "r' = r + 1"
  shows "\<exists>st. column st = pos \<and> (\<forall>acc. simulateDrop_loop (after r rng0) pm (Num a) r pos acc =
            simulateDrop_loop (after r' rng0) pm (Num a) r' pos (acc @ [st]))"
proof -
  have l: "lt (draw rng0 r) (Num (max 0 (min 1 (fl (q + a)))))"
    using assms(6,7) by simp
  show ?thesis
    by (intro exI[of _ "\<lparr>row = r, column = pos, direction = Left, pegBias = Some (Num q),
          randomValue = draw rng0 r, adjustedBias = Num (max 0 (min 1 (fl (q + a))))\<rparr>"])
       (simp add: simulateDrop_loop_step[OF assms(1-5)] l r' del: lt.simps)
qed

lemma simulateDrop_loop_Right:
  assumes "r < ROWS" "r < length pm" "pos < length (pm ! r)" "pos \<le> r"
    and "pm ! r ! pos = Num q" and "draw rng0 r = Num u" and "\<not> u < max 0 (min 1 (fl (q + a)))"
    and r': "r' = r + 1" and pos': "pos' = pos + 1"
  shows "\<exists>st. column st = pos' \<and> (\<forall>acc. simulateDrop_loop (after r rng0) pm (Num a) r pos acc =
            simulateDrop_loop (after r' rng0) pm (Num a) r' pos' (acc @ [st]))"
proof -
  have l: "\<not> lt (draw rng0 r) (Num (max 0 (min 1 (fl (q + a)))))"
    using assms(6,7) by simp
  show ?thesis
    by (intro exI[of _ "\<lparr>row = r, column = pos + 1, direction = Right, pegBias = Some (Num q),
          randomValue = draw rng0 r, adjustedBias = Num (max 0 (min 1 (fl (q + a))))\<rparr>"])
       (simp add: simulateDrop_loop_step[OF assms(1-5)] l r' pos' del: lt.simps)
qed

lemma tv_adj:
  "fmul (fsub (Num 6) (Math_floor (fdiv (num_of_nat ROWS) (Num 2)))) (lit (1 / 100)) = Num 0"
  by (simp add: num_of_int_def num_of_nat_def lit_def ROWS_def fl_eval)

lemma length_generated_row:
  "i < nrows \<Longrightarrow> length (fst (generatePegMap rng nrows) ! i) = i + 1"
  using generated_pegMap_good by blast

lemma tv_step_0:
  "\<exists>st. column st = 0 \<and> (\<forall>acc. simulateDrop_loop (after 0 (after 78 (RoundRNG_new tv_combinedSeed))) (fst (generatePegMap (RoundRNG_new tv_combinedSeed) 12)) (Num 0) 0 0 acc =
      simulateDrop_loop (after 1 (after 78 (RoundRNG_new tv_combinedSeed))) (fst (generatePegMap (RoundRNG_new tv_combinedSeed) 12)) (Num 0) 1 0 (acc @ [st]))"
proof -
  have d: "draw (after 78 (RoundRNG_new tv_combinedSeed)) 0 = Num (459441729 / 4294967296)"
    by (simp only: draw_after) (simp add: tv_draw_78)
  have c: "(459441729 / 4294967296) < max 0 (min 1 (fl (475268246376129 / 1125899906842624 + 0)))"
    by (simp add: fl_eval)
  show ?thesis
    by (rule simulateDrop_loop_Left[OF _ _ _ _ tv_peg_0_0 d c])
       (simp_all add: ROWS_def length_generated_pegMap length_generated_row)
qed

lemma tv_step_1:
  "\<exists>st. column st = 0 \<and> (\<forall>acc. simulateDrop_loop (after 1 (after 78 (RoundRNG_new tv_combinedSeed))) (fst (generatePegMap (RoundRNG_new tv_combinedSeed) 12)) (Num 0) 1 0 acc =
      simulateDrop_loop (after 2 (after 78 (RoundRNG_new tv_combinedSeed))) (fst (generatePegMap (RoundRNG_new tv_combinedSeed) 12)) (Num 0) 2 0 (acc @ [st]))"
proof -
  have d: "draw (after 78 (RoundRNG_new tv_combinedSeed)) 1 = Num (264158277 / 1073741824)"
    by (simp only: draw_after) (simp add: tv_draw_79)
  have c: "(264158277 / 1073741824) < max 0 (min 1 (fl (2488252304921081 / 4503599627370496 + 0)))"
    by (simp add: fl_eval)
  show ?thesis
    by (rule simulateDrop_loop_Left[OF _ _ _ _ tv_peg_1_0 d c])
       (simp_all add: ROWS_def length_generated_pegMap length_generated_row)
qed

lemma tv_step_2:
  "\<exists>st. column st = 0 \<and> (\<forall>acc. simulateDrop_loop (after 2 (after 78 (RoundRNG_new tv_combinedSeed))) (fst (generatePegMap (RoundRNG_new tv_combinedSeed) 12)) (Num 0) 2 0 acc =
      simulateDrop_loop (after 3 (after 78 (RoundRNG_new tv_combinedSeed))) (fst (generatePegMap (RoundRNG_new tv_combinedSeed) 12)) (Num 0) 3 0 (acc @ [st]))"
proof -
  have d: "draw (after 78 (RoundRNG_new tv_combinedSeed)) 2 = Num (259657167 / 536870912)"
    by (simp only: draw_after) (simp add: tv_draw_80)
  have c: "(259657167 / 536870912) < max 0 (min 1 (fl (8855409932900097 / 18014398509481984 + 0)))"
    by (simp add: fl_eval)
  show ?thesis
    by (rule simulateDrop_loop_Left[OF _ _ _ _ tv_peg_2_0 d c])
       (simp_all add: ROWS_def length_generated_pegMap length_generated_row)
qed

lemma tv_step_3:
  "\<exists>st. column st = 1 \<and> (\<forall>acc. simulateDrop_loop (after 3 (after 78 (RoundRNG_new tv_combinedSeed))) (fst (generatePegMap (RoundRNG_new tv_combinedSeed) 12)) (Num 0) 3 0 acc =
      simulateDrop_loop (after 4 (after 78 (RoundRNG_new tv_combinedSeed))) (fst (generatePegMap (RoundRNG_new tv_combinedSeed) 12)) (Num 0) 4 1 (acc @ [st]))"
proof -
  have d: "draw (after 78 (RoundRNG_new tv_combinedSeed)) 3 = Num (3052796823 / 4294967296)"
    by (simp only: draw_after) (simp add: tv_draw_81)
  have c: "\<not> (3052796823 / 4294967296) < max 0 (min 1 (fl (8960505933804415 / 18014398509481984 + 0)))"
    by (simp add: fl_eval)
  show ?thesis
    by (rule simulateDrop_loop_Right[OF _ _ _ _ tv_peg_3_0 d c])
       (simp_all add: ROWS_def length_generated_pegMap length_generated_row)
qed

lemma tv_step_4:
  "\<exists>st. column st = 1 \<and> (\<forall>acc. simulateDrop_loop (after 4 (after 78 (RoundRNG_new tv_combinedSeed))) (fst (generatePegMap (RoundRNG_new tv_combinedSeed) 12)) (Num 0) 4 1 acc =
      simulateDrop_loop (after 5 (after 78 (RoundRNG_new tv_combinedSeed))) (fst (generatePegMap (RoundRNG_new tv_combinedSeed) 12)) (Num 0) 5 1 (acc @ [st]))"
proof -
  have d: "draw (after 78 (RoundRNG_new tv_combinedSeed)) 4 = Num (379138325 / 1073741824)"
    by (simp only: draw_after) (simp add: tv_draw_82)
  have c: "(379138325 / 1073741824) < max 0 (min 1 (fl (1203215453445507 / 2251799813685248 + 0)))"
    by (simp add: fl_eval)
  show ?thesis
    by (rule simulateDrop_loop_Left[OF _ _ _ _ tv_peg_4_1 d c])
       (simp_all add: ROWS_def length_generated_pegMap length_generated_row)
qed

lemma tv_step_5:
  "\<exists>st. column st = 2 \<and> (\<forall>acc. simulateDrop_loop (after 5 (after 78 (RoundRNG_new tv_combinedSeed))) (fst (generatePegMap (RoundRNG_new tv_combinedSeed) 12)) (Num 0) 5 1 acc =
      simulateDrop_loop (after 6 (after 78 (RoundRNG_new tv_combinedSeed))) (fst (generatePegMap (RoundRNG_new tv_combinedSeed) 12)) (Num 0) 6 2 (acc @ [st]))"
proof -
  have d: "draw (after 78 (RoundRNG_new tv_combinedSeed)) 5 = Num (2670362947 / 4294967296)"
    by (simp only: draw_after) (simp add: tv_draw_83)
  have c: "\<not> (2670362947 / 4294967296) < max 0 (min 1 (fl (5114017520864293 / 9007199254740992 + 0)))"
    by (simp add: fl_eval)
  show ?thesis
    by (rule simulateDrop_loop_Right[OF _ _ _ _ tv_peg_5_1 d c])
       (simp_all add: ROWS_def length_generated_pegMap length_generated_row)
qed

lemma tv_step_6:
  "\<exists>st. column st = 2 \<and> (\<forall>acc. simulateDrop_loop (after 6 (after 78 (RoundRNG_new tv_combinedSeed))) (fst (generatePegMap (RoundRNG_new tv_combinedSeed) 12)) (Num 0) 6 2 acc =
      simulateDrop_loop (after 7 (after 78 (RoundRNG_new tv_combinedSeed))) (fst (generatePegMap (RoundRNG_new tv_combinedSeed) 12)) (Num 0) 7 2 (acc @ [st]))"
proof -
  have d: "draw (after 78 (RoundRNG_new tv_combinedSeed)) 6 = Num (396963649 / 2147483648)"
    by (simp only: draw_after) (simp add: tv_draw_84)
  have c: "(396963649 / 2147483648) < max 0 (min 1 (fl (7854620023705825 / 18014398509481984 + 0)))"
    by (simp add: fl_eval)
  show ?thesis
    by (rule simulateDrop_loop_Left[OF _ _ _ _ tv_peg_6_2 d c])
       (simp_all add: ROWS_def length_generated_pegMap length_generated_row)
qed

lemma tv_step_7:
  "\<exists>st. column st = 3 \<and> (\<forall>acc. simulateDrop_loop (after 7 (after 78 (RoundRNG_new tv_combinedSeed))) (fst (generatePegMap (RoundRNG_new tv_combinedSeed) 12)) (Num 0) 7 2 acc =
      simulateDrop_loop (after 8 (after 78 (RoundRNG_new tv_combinedSeed))) (fst (generatePegMap (RoundRNG_new tv_combinedSeed) 12)) (Num 0) 8 3 (acc @ [st]))"
proof -
  have d: "draw (after 78 (RoundRNG_new tv_combinedSeed)) 7 = Num (4106728611 / 4294967296)"
    by (simp only: draw_after) (simp add: tv_draw_85)
  have c: "\<not> (4106728611 / 4294967296) < max 0 (min 1 (fl (1223589738159731 / 2251799813685248 + 0)))"
    by (simp add: fl_eval)
  show ?thesis
    by (rule simulateDrop_loop_Right[OF _ _ _ _ tv_peg_7_2 d c])
       (simp_all add: ROWS_def length_generated_pegMap length_generated_row)
qed

lemma tv_step_8:
  "\<exists>st. column st = 3 \<and> (\<forall>acc. simulateDrop_loop (after 8 (after 78 (RoundRNG_new tv_combinedSeed))) (fst (generatePegMap (RoundRNG_new tv_combinedSeed) 12)) (Num 0) 8 3 acc =
      simulateDrop_loop (after 9 (after 78 (RoundRNG_new tv_combinedSeed))) (fst (generatePegMap (RoundRNG_new tv_combinedSeed) 12)) (Num 0) 9 3 (acc @ [st]))"
proof -
  have d: "draw (after 78 (RoundRNG_new tv_combinedSeed)) 8 = Num (605336165 / 2147483648)"
    by (simp only: draw_after) (simp add: tv_draw_86)
  have c: "(605336165 / 2147483648) < max 0 (min 1 (fl (1946280118564061 / 4503599627370496 + 0)))"
    by (simp add: fl_eval)
  show ?thesis
    by (rule simulateDrop_loop_Left[OF _ _ _ _ tv_peg_8_3 d c])
       (simp_all add: ROWS_def length_generated_pegMap length_generated_row)
qed

lemma tv_step_9:
  "\<exists>st. column st = 4 \<and> (\<forall>acc. simulateDrop_loop (after 9 (after 78 (RoundRNG_new tv_combinedSeed))) (fst (generatePegMap (RoundRNG_new tv_combinedSeed) 12)) (Num 0) 9 3 acc =
      simulateDrop_loop (after 10 (after 78 (RoundRNG_new tv_combinedSeed))) (fst (generatePegMap (RoundRNG_new tv_combinedSeed) 12)) (Num 0) 10 4 (acc @ [st]))"
proof -
  have d: "draw (after 78 (RoundRNG_new tv_combinedSeed)) 9 = Num (2035901033 / 2147483648)"
    by (simp only: draw_after) (simp add: tv_draw_87)
  have c: "\<not> (2035901033 / 2147483648) < max 0 (min 1 (fl (4595382987776307 / 9007199254740992 + 0)))"
    by (simp add: fl_eval)
  show ?thesis
    by (rule simulateDrop_loop_Right[OF _ _ _ _ tv_peg_9_3 d c])
       (simp_all add: ROWS_def length_generated_pegMap length_generated_row)
qed

lemma tv_step_10:
  "\<exists>st. column st = 5 \<and> (\<forall>acc. simulateDrop_loop (after 10 (after 78 (RoundRNG_new tv_combinedSeed))) (fst (generatePegMap (RoundRNG_new tv_combinedSeed) 12)) (Num 0) 10 4 acc =
      simulateDrop_loop (after 11 (after 78 (RoundRNG_new tv_combinedSeed))) (fst (generatePegMap (RoundRNG_new tv_combinedSeed) 12)) (Num 0) 11 5 (acc @ [st]))"
proof -
  have d: "draw (after 78 (RoundRNG_new tv_combinedSeed)) 10 = Num (2006545539 / 2147483648)"
    by (simp only: draw_after) (simp add: tv_draw_88)
  have c: "\<not> (2006545539 / 2147483648) < max 0 (min 1 (fl (7335084770692365 / 18014398509481984 + 0)))"
    by (simp add: fl_eval)
  show ?thesis
    by (rule simulateDrop_loop_Right[OF _ _ _ _ tv_peg_10_4 d c])
       (simp_all add: ROWS_def length_generated_pegMap length_generated_row)
qed

lemma tv_step_11:
  "\<exists>st. column st = 6 \<and> (\<forall>acc. simulateDrop_loop (after 11 (after 78 (RoundRNG_new tv_combinedSeed))) (fst (generatePegMap (RoundRNG_new tv_combinedSeed) 12)) (Num 0) 11 5 acc =
      simulateDrop_loop (after 12 (after 78 (RoundRNG_new tv_combinedSeed))) (fst (generatePegMap (RoundRNG_new tv_combinedSeed) 12)) (Num 0) 12 6 (acc @ [st]))"
proof -
  have d: "draw (after 78 (RoundRNG_new tv_combinedSeed)) 11 = Num (4032590319 / 4294967296)"
    by (simp only: draw_after) (simp add: tv_draw_89)
  have c: "\<not> (4032590319 / 4294967296) < max 0 (min 1 (fl (957454021779899 / 2251799813685248 + 0)))"
    by (simp add: fl_eval)
  show ?thesis
    by (rule simulateDrop_loop_Right[OF _ _ _ _ tv_peg_11_5 d c])
       (simp_all add: ROWS_def length_generated_pegMap length_generated_row)
qed

lemma tv_drop:
  "\<exists>steps. simulateDrop (after 78 (RoundRNG_new tv_combinedSeed)) (fst (generatePegMap (RoundRNG_new tv_combinedSeed) 12)) (Num 6) = Inr (steps, after 12 (after 78 (RoundRNG_new tv_combinedSeed)))
      \<and> steps \<noteq> [] \<and> column (last steps) = 6"
proof -

  obtain st0 where c0: "column st0 = 0"
    and s0: "\<And>acc. simulateDrop_loop (after 0 (after 78 (RoundRNG_new tv_combinedSeed))) (fst (generatePegMap (RoundRNG_new tv_combinedSeed) 12)) (Num 0) 0 0 acc =
      simulateDrop_loop (after 1 (after 78 (RoundRNG_new tv_combinedSeed))) (fst (generatePegMap (RoundRNG_new tv_combinedSeed) 12)) (Num 0) 1 0 (acc @ [st0])"
    using tv_step_0 by blast
  obtain st1 where c1: "column st1 = 0"
    and s1: "\<And>acc. simulateDrop_loop (after 1 (after 78 (RoundRNG_new tv_combinedSeed))) (fst (generatePegMap (RoundRNG_new tv_combinedSeed) 12)) (Num 0) 1 0 acc =
      simulateDrop_loop (after 2 (after 78 (RoundRNG_new tv_combinedSeed))) (fst (generatePegMap (RoundRNG_new tv_combinedSeed) 12)) (Num 0) 2 0 (acc @ [st1])"
    using tv_step_1 by blast
  obtain st2 where c2: "column st2 = 0"
    and s2: "\<And>acc. simulateDrop_loop (after 2 (after 78 (RoundRNG_new tv_combinedSeed))) (fst (generatePegMap (RoundRNG_new tv_combinedSeed) 12)) (Num 0) 2 0 acc =
      simulateDrop_loop (after 3 (after 78 (RoundRNG_new tv_combinedSeed))) (fst (generatePegMap (RoundRNG_new tv_combinedSeed) 12)) (Num 0) 3 0 (acc @ [st2])"
    using tv_step_2 by blast
  obtain st3 where c3: "column st3 = 1"
    and s3: "\<And>acc. simulateDrop_loop (after 3 (after 78 (RoundRNG_new tv_combinedSeed))) (fst (generatePegMap (RoundRNG_new tv_combinedSeed) 12)) (Num 0) 3 0 acc =
      simulateDrop_loop (after 4 (after 78 (RoundRNG_new tv_combinedSeed))) (fst (generatePegMap (RoundRNG_new tv_combinedSeed) 12)) (Num 0) 4 1 (acc @ [st3])"
    using tv_step_3 by blast
  obtain st4 where c4: "column st4 = 1"
    and s4: "\<And>acc. simulateDrop_loop (after 4 (after 78 (RoundRNG_new tv_combinedSeed))) (fst (generatePegMap (RoundRNG_new tv_combinedSeed) 12)) (Num 0) 4 1 acc =
      simulateDrop_loop (after 5 (after 78 (RoundRNG_new tv_combinedSeed))) (fst (generatePegMap (RoundRNG_new tv_combinedSeed) 12)) (Num 0) 5 1 (acc @ [st4])"
    using tv_step_4 by blast
  obtain st5 where c5: "column st5 = 2"
    and s5: "\<And>acc. simulateDrop_loop (after 5 (after 78 (RoundRNG_new tv_combinedSeed))) (fst (generatePegMap (RoundRNG_new tv_combinedSeed) 12)) (Num 0) 5 1 acc =
      simulateDrop_loop (after 6 (after 78 (RoundRNG_new tv_combinedSeed))) (fst (generatePegMap (RoundRNG_new tv_combinedSeed) 12)) (Num 0) 6 2 (acc @ [st5])"
    using tv_step_5 by blast
  obtain st6 where c6: "column st6 = 2"
    and s6: "\<And>acc. simulateDrop_loop (after 6 (after 78 (RoundRNG_new tv_combinedSeed))) (fst (generatePegMap (RoundRNG_new tv_combinedSeed) 12)) (Num 0) 6 2 acc =
      simulateDrop_loop (after 7 (after 78 (RoundRNG_new tv_combinedSeed))) (fst (generatePegMap (RoundRNG_new tv_combinedSeed) 12)) (Num 0) 7 2 (acc @ [st6])"
    using tv_step_6 by blast
  obtain st7 where c7: "column st7 = 3"
    and s7: "\<And>acc. simulateDrop_loop (after 7 (after 78 (RoundRNG_new tv_combinedSeed))) (fst (generatePegMap (RoundRNG_new tv_combinedSeed) 12)) (Num 0) 7 2 acc =
      simulateDrop_loop (after 8 (after 78 (RoundRNG_new tv_combinedSeed))) (fst (generatePegMap (RoundRNG_new tv_combinedSeed) 12)) (Num 0) 8 3 (acc @ [st7])"
    using tv_step_7 by blast
  obtain st8 where c8: "column st8 = 3"
    and s8: "\<And>acc. simulateDrop_loop (after 8 (after 78 (RoundRNG_new tv_combinedSeed))) (fst (generatePegMap (RoundRNG_new tv_combinedSeed) 12)) (Num 0) 8 3 acc =
      simulateDrop_loop (after 9 (after 78 (RoundRNG_new tv_combinedSeed))) (fst (generatePegMap (RoundRNG_new tv_combinedSeed) 12)) (Num 0) 9 3 (acc @ [st8])"
    using tv_step_8 by blast
  obtain st9 where c9: "column st9 = 4"
    and s9: "\<And>acc. simulateDrop_loop (after 9 (after 78 (RoundRNG_new tv_combinedSeed))) (fst (generatePegMap (RoundRNG_new tv_combinedSeed) 12)) (Num 0) 9 3 acc =
      simulateDrop_loop (after 10 (after 78 (RoundRNG_new tv_combinedSeed))) (fst (generatePegMap (RoundRNG_new tv_combinedSeed) 12)) (Num 0) 10 4 (acc @ [st9])"
    using tv_step_9 by blast
  obtain st10 where c10: "column st10 = 5"
    and s10: "\<And>acc. simulateDrop_loop (after 10 (after 78 (RoundRNG_new tv_combinedSeed))) (fst (generatePegMap (RoundRNG_new tv_combinedSeed) 12)) (Num 0) 10 4 acc =
      simulateDrop_loop (after 11 (after 78 (RoundRNG_new tv_combinedSeed))) (fst (generatePegMap (RoundRNG_new tv_combinedSeed) 12)) (Num 0) 11 5 (acc @ [st10])"
    using tv_step_10 by blast
  obtain st11 where c11: "column st11 = 6"
    and s11: "\<And>acc. simulateDrop_loop (after 11 (after 78 (RoundRNG_new tv_combinedSeed))) (fst (generatePegMap (RoundRNG_new tv_combinedSeed) 12)) (Num 0) 11 5 acc =
      simulateDrop_loop (after 12 (after 78 (RoundRNG_new tv_combinedSeed))) (fst (generatePegMap (RoundRNG_new tv_combinedSeed) 12)) (Num 0) 12 6 (acc @ [st11])"
    using tv_step_11 by blast
  have e: "simulateDrop_loop (after 12 (after 78 (RoundRNG_new tv_combinedSeed))) (fst (generatePegMap (RoundRNG_new tv_combinedSeed) 12)) (Num 0) 12 6 [st0, st1, st2, st3, st4, st5, st6, st7, st8, st9, st10, st11] = Inr ([st0, st1, st2, st3, st4, st5, st6, st7, st8, st9, st10, st11], after 12 (after 78 (RoundRNG_new tv_combinedSeed)))"
    by (subst simulateDrop_loop.simps) (simp add: ROWS_def)
  have "simulateDrop (after 78 (RoundRNG_new tv_combinedSeed)) (fst (generatePegMap (RoundRNG_new tv_combinedSeed) 12)) (Num 6) = simulateDrop_loop (after 0 (after 78 (RoundRNG_new tv_combinedSeed))) (fst (generatePegMap (RoundRNG_new tv_combinedSeed) 12)) (Num 0) 0 0 []"
    by (simp add: simulateDrop_def tv_adj after_0)
  also have "\<dots> = Inr ([st0, st1, st2, st3, st4, st5, st6, st7, st8, st9, st10, st11], after 12 (after 78 (RoundRNG_new tv_combinedSeed)))"
    by (simp only: s0 s1 s2 s3 s4 s5 s6 s7 s8 s9 s10 s11 e append_Nil append_Cons)
  finally show ?thesis using c11 by simp
qed

lemma index_center: "index (getPayoutMultipliers BINS) 6 = Some (Num (1 / 2))"
proof -
  have "getPayoutMultipliers 13 ! 6 = multiplier_spec 13 6"
    by (rule nth_getPayoutMultipliers_spec) simp_all
  also have "\<dots> = Num (1 / 2)"
    using multiplier_spec_center[of 13] by simp
  finally show ?thesis
    by (simp add: BINS_def ROWS_def index_Some length_getPayoutMultipliers)
qed

lemma tv_playRound:
  "\<exists>steps. playRound tv_serverSeed tv_clientSeed tv_nonce (Num 6) 12 betCents =
     Inr \<lparr>pegMap = fst (generatePegMap (RoundRNG_new tv_combinedSeed) 12),
          pegMapHash = createPegMapHash (fst (generatePegMap (RoundRNG_new tv_combinedSeed) 12)),
          path = steps,
          binIndex = 6,
          payoutMultiplier = Some (Num (1 / 2)),
          payoutCents = Math_round (fmul betCents (Num (1 / 2))),
          rows = 12,
          combinedSeed = tv_combinedSeed\<rparr>"
proof -
  obtain steps where s: "simulateDrop (after 78 (RoundRNG_new tv_combinedSeed))
       (fst (generatePegMap (RoundRNG_new tv_combinedSeed) 12)) (Num 6)
         = Inr (steps, after 12 (after 78 (RoundRNG_new tv_combinedSeed)))"
    and n: "steps \<noteq> []" and c: "column (last steps) = 6"
    using tv_drop by blast
  obtain x xs where x: "steps = x # xs" using n by (cases steps) auto
  have t: "triangular 12 = 78" by (simp add: triangular_def)
  have "playRound tv_serverSeed tv_clientSeed tv_nonce (Num 6) 12 betCents =
     Inr \<lparr>pegMap = fst (generatePegMap (RoundRNG_new tv_combinedSeed) 12),
          pegMapHash = createPegMapHash (fst (generatePegMap (RoundRNG_new tv_combinedSeed) 12)),
          path = steps,
          binIndex = 6,
          payoutMultiplier = Some (Num (1 / 2)),
          payoutCents = Math_round (fmul betCents (Num (1 / 2))),
          rows = 12,
          combinedSeed = tv_combinedSeed\<rparr>"
    unfolding playRound_unfold generateCombinedSeed_tv t s
    using c by (simp add: x index_center del: Math_round.simps fmul.simps)
  then show ?thesis by blast
qed

lemma list_of_length_1: "length xs = 1 \<Longrightarrow> xs = [xs ! 0]"
  by (cases xs) simp_all

lemma list_of_length_2: "length xs = 2 \<Longrightarrow> xs = [xs ! 0, xs ! 1]"
  by (cases xs; cases "tl xs") simp_all

lemma list_of_length_3: "length xs = 3 \<Longrightarrow> xs = [xs ! 0, xs ! 1, xs ! 2]"
  by (cases xs; cases "tl xs"; cases "tl (tl xs)") simp_all

lemma tv_row_0: "fst (generatePegMap (RoundRNG_new tv_combinedSeed) 12) ! 0 = [Num (475268246376129 / 1125899906842624)]"
proof -
  have "length (fst (generatePegMap (RoundRNG_new tv_combinedSeed) 12) ! 0) = 1"
    using length_generated_row[of 0 12 "RoundRNG_new tv_combinedSeed"] by simp
  from list_of_length_1[OF this] show ?thesis
    by (simp only: tv_peg_0_0)
qed

lemma tv_row_1: "fst (generatePegMap (RoundRNG_new tv_combinedSeed) 12) ! 1 = [Num (2488252304921081 / 4503599627370496), Num (3682016954548551 / 9007199254740992)]"
proof -
  have "length (fst (generatePegMap (RoundRNG_new tv_combinedSeed) 12) ! 1) = 2"
    using length_generated_row[of 1 12 "RoundRNG_new tv_combinedSeed"] by simp
  from list_of_length_2[OF this] show ?thesis
    by (simp only: tv_peg_1_0 tv_peg_1_1)
qed

lemma tv_row_2: "fst (generatePegMap (RoundRNG_new tv_combinedSeed) 12) ! 2 = [Num (8855409932900097 / 18014398509481984), Num (2111197433318741 / 4503599627370496), Num (7864005525329265 / 18014398509481984)]"
proof -
  have "length (fst (generatePegMap (RoundRNG_new tv_combinedSeed) 12) ! 2) = 3"
    using length_generated_row[of 2 12 "RoundRNG_new tv_combinedSeed"] by simp
  from list_of_length_3[OF this] show ?thesis
    by (simp only: tv_peg_2_0 tv_peg_2_1 tv_peg_2_2)
qed

text \<open>
  C7. For the server seed
  \<open>b2a5f3f32a4d9c6ee7a8c1d33456677890abcdeffedcba0987654321ffeeddcc\<close>, the client seed
  \<open>candidate-hello\<close>, the nonce \<open>42\<close>, the drop column 6 and 12 rows, \<open>playRound\<close>
  returns, whatever the stake is, a result with the combined seed
  \<open>e1dddf77de27d395ea2be2ed49aa2a59bd6bf12ee8d350c16c008abd406c07e0\<close>, the bin index 6
  and a peg map whose row 0 is within \<open>10^-6\<close> of \<open>[0.422123]\<close>, row 1 of
  \<open>[0.552503, 0.408786]\<close> and row 2 of \<open>[0.491574, 0.468780, 0.436540]\<close>.
\<close>

theorem playRound_test_vector:
  "\<exists>r a b c d e f.
     playRound ''b2a5f3f32a4d9c6ee7a8c1d33456677890abcdeffedcba0987654321ffeeddcc''
       ''candidate-hello'' ''42'' (Num 6) 12 betCents = Inr r
     \<and> combinedSeed r = ''e1dddf77de27d395ea2be2ed49aa2a59bd6bf12ee8d350c16c008abd406c07e0''
     \<and> binIndex r = 6
     \<and> pegMap r ! 0 = [Num a]
     \<and> pegMap r ! 1 = [Num b, Num c]
     \<and> pegMap r ! 2 = [Num d, Num e, Num f]
     \<and> \<bar>a - 422123 / 1000000\<bar> < 1 / 1000000
     \<and> \<bar>b - 552503 / 1000000\<bar> < 1 / 1000000
     \<and> \<bar>c - 408786 / 1000000\<bar> < 1 / 1000000
     \<and> \<bar>d - 491574 / 1000000\<bar> < 1 / 1000000
     \<and> \<bar>e - 468780 / 1000000\<bar> < 1 / 1000000
     \<and> \<bar>f - 436540 / 1000000\<bar> < 1 / 1000000"
proof -
  obtain steps where p: "playRound tv_serverSeed tv_clientSeed tv_nonce (Num 6) 12 betCents =
     Inr \<lparr>pegMap = fst (generatePegMap (RoundRNG_new tv_combinedSeed) 12),
          pegMapHash = createPegMapHash (fst (generatePegMap (RoundRNG_new tv_combinedSeed) 12)),
          path = steps,
          binIndex = 6,
          payoutMultiplier = Some (Num (1 / 2)),
          payoutCents = Math_round (fmul betCents (Num (1 / 2))),
          rows = 12,
          combinedSeed = tv_combinedSeed\<rparr>"
    using tv_playRound by blast
  let ?r = "\<lparr>pegMap = fst (generatePegMap (RoundRNG_new tv_combinedSeed) 12),
          pegMapHash = createPegMapHash (fst (generatePegMap (RoundRNG_new tv_combinedSeed) 12)),
          path = steps,
          binIndex = 6,
          payoutMultiplier = Some (Num (1 / 2)),
          payoutCents = Math_round (fmul betCents (Num (1 / 2))),
          rows = 12,
          combinedSeed = tv_combinedSeed\<rparr>"
  have c1: "playRound ''b2a5f3f32a4d9c6ee7a8c1d33456677890abcdeffedcba0987654321ffeeddcc''
       ''candidate-hello'' ''42'' (Num 6) 12 betCents = Inr ?r"
    using p by (simp only: tv_serverSeed_def tv_clientSeed_def tv_nonce_def)
  have c2: "combinedSeed ?r = ''e1dddf77de27d395ea2be2ed49aa2a59bd6bf12ee8d350c16c008abd406c07e0''"
    by (simp add: tv_combinedSeed_def)
  have c3: "binIndex ?r = 6" by simp
  have c4: "pegMap ?r ! 0 = [Num (475268246376129 / 1125899906842624)]" by (simp add: tv_row_0)
  have c5: "pegMap ?r ! 1 = [Num (2488252304921081 / 4503599627370496), Num (3682016954548551 / 9007199254740992)]"
    using tv_row_1 by simp
  have c6: "pegMap ?r ! 2 = [Num (8855409932900097 / 18014398509481984), Num (2111197433318741 / 4503599627370496), Num (7864005525329265 / 18014398509481984)]"
    using tv_row_2 by simp
  have t: "\<bar>475268246376129 / 1125899906842624 - 422123 / 1000000 :: rat\<bar> < 1 / 1000000"
    "\<bar>2488252304921081 / 4503599627370496 - 552503 / 1000000 :: rat\<bar> < 1 / 1000000"
    "\<bar>3682016954548551 / 9007199254740992 - 408786 / 1000000 :: rat\<bar> < 1 / 1000000"
    "\<bar>8855409932900097 / 18014398509481984 - 491574 / 1000000 :: rat\<bar> < 1 / 1000000"
    "\<bar>2111197433318741 / 4503599627370496 - 468780 / 1000000 :: rat\<bar> < 1 / 1000000"
    "\<bar>7864005525329265 / 18014398509481984 - 436540 / 1000000 :: rat\<bar> < 1 / 1000000"
    by simp_all
  show ?thesis
    by (intro exI conjI, rule c1, rule c2, rule c3, rule c4, rule c5, rule c6) (rule t)+
qed








end
